theory Spec2Isabelle
  imports Complex_Main
begin

section \<open>JavaScript numbers\<close>

text \<open>
  The detection library computes with JavaScript numbers. They are modelled as real
  numbers, extended by the one special value the library can produce from reals by
  itself: \<open>NaN\<close>, the result of \<open>0 / 0\<close>. Arithmetic on \<open>NaN\<close> gives \<open>NaN\<close>
  (also \<open>Math.max\<close>, \<open>Math.min\<close>, \<open>Math.abs\<close> and \<open>Math.round\<close>), and every
  comparison with \<open>NaN\<close> is false. Rounding errors and the infinities of the
  floating-point format are outside the model.
\<close>

datatype jsnum = Num real | NaN

definition lift1 :: "(real \<Rightarrow> real) \<Rightarrow> jsnum \<Rightarrow> jsnum" where
  "lift1 f a = (case a of Num x \<Rightarrow> Num (f x) | NaN \<Rightarrow> NaN)"

definition lift2 :: "(real \<Rightarrow> real \<Rightarrow> real) \<Rightarrow> jsnum \<Rightarrow> jsnum \<Rightarrow> jsnum" where
  "lift2 f a b = (case a of Num x \<Rightarrow> (case b of Num y \<Rightarrow> Num (f x y) | NaN \<Rightarrow> NaN) | NaN \<Rightarrow> NaN)"

definition js_lt :: "jsnum \<Rightarrow> jsnum \<Rightarrow> bool" where
  "js_lt a b = (case a of Num x \<Rightarrow> (case b of Num y \<Rightarrow> x < y | NaN \<Rightarrow> False) | NaN \<Rightarrow> False)"

definition js_le :: "jsnum \<Rightarrow> jsnum \<Rightarrow> bool" where
  "js_le a b = (case a of Num x \<Rightarrow> (case b of Num y \<Rightarrow> x \<le> y | NaN \<Rightarrow> False) | NaN \<Rightarrow> False)"

text \<open>\<open>Math.round\<close> rounds to the nearest integer, a tie towards plus infinity.\<close>

definition math_round :: "real \<Rightarrow> int" where
  "math_round x = \<lfloor>x + 1 / 2\<rfloor>"

text \<open>\<open>xs.reduce((a, b) => a + f(b), 0)\<close>: a left fold from 0.\<close>

definition reduce_sum :: "('a \<Rightarrow> real) \<Rightarrow> 'a list \<Rightarrow> real" where
  "reduce_sum f xs = foldl (\<lambda>a b. a + f b) 0 xs"


section \<open>Data model (types.ts)\<close>

text \<open>A feature slot is \<open>number | null\<close>: \<open>None\<close> is \<open>null\<close> (not measured).\<close>

record AMAFFeatureVector =
  hfer :: "jsnum option"
  svd :: "jsnum option"
  pdi :: "jsnum option"
  tiis :: "jsnum option"
  fav :: "jsnum option"
  etk :: "jsnum option"
  pvss :: "jsnum option"
  frd :: "jsnum option"

text \<open>\<open>keyof AMAFFeatureVector\<close>, and the read \<open>vector[key]\<close>.\<close>

datatype FeatureKey = Hfer | Svd | Pdi | Tiis | Fav | Etk | Pvss | Frd

fun slot :: "AMAFFeatureVector \<Rightarrow> FeatureKey \<Rightarrow> jsnum option" where
  "slot v Hfer = hfer v"
| "slot v Svd = svd v"
| "slot v Pdi = pdi v"
| "slot v Tiis = tiis v"
| "slot v Fav = fav v"
| "slot v Etk = etk v"
| "slot v Pvss = pvss v"
| "slot v Frd = frd v"

datatype AnalysisLevel = level1_lightweight | level2_deep_spatial | level3_temporal_crossmodal

datatype RiskLevel = low | suspicious | harmful | high_risk


section \<open>Scoring engine (scoring-engine.ts)\<close>

record FeatureBaseline =
  mean :: real
  std :: real
  weight :: real
  higherIsSuspicious :: bool

fun FEATURE_BASELINES :: "FeatureKey \<Rightarrow> FeatureBaseline" where
  "FEATURE_BASELINES Hfer = \<lparr>mean = 0.25, std = 0.08, weight = 0.18, higherIsSuspicious = False\<rparr>"
| "FEATURE_BASELINES Svd = \<lparr>mean = 0.15, std = 0.12, weight = 0.12, higherIsSuspicious = True\<rparr>"
| "FEATURE_BASELINES Pdi = \<lparr>mean = 0.008, std = 0.005, weight = 0.14, higherIsSuspicious = True\<rparr>"
| "FEATURE_BASELINES Tiis = \<lparr>mean = 0.02, std = 0.015, weight = 0.16, higherIsSuspicious = True\<rparr>"
| "FEATURE_BASELINES Fav = \<lparr>mean = 0.2, std = 0.15, weight = 0.10, higherIsSuspicious = True\<rparr>"
| "FEATURE_BASELINES Etk = \<lparr>mean = 3.0, std = 2.0, weight = 0.10, higherIsSuspicious = True\<rparr>"
| "FEATURE_BASELINES Pvss = \<lparr>mean = 50, std = 30, weight = 0.10, higherIsSuspicious = False\<rparr>"
| "FEATURE_BASELINES Frd = \<lparr>mean = 0.15, std = 0.1, weight = 0.10, higherIsSuspicious = True\<rparr>"

text \<open>\<open>Object.keys(FEATURE_BASELINES)\<close>: the keys in the order of the object literal.\<close>

definition feature_keys :: "FeatureKey list" where
  "feature_keys = [Hfer, Svd, Pdi, Tiis, Fav, Etk, Pvss, Frd]"

definition normalizeFeature :: "FeatureKey \<Rightarrow> jsnum \<Rightarrow> jsnum" where
  "normalizeFeature key val =
     (let baseline = FEATURE_BASELINES key;
          zScore = lift1 (\<lambda>v. (v - mean baseline) / max (std baseline) (1 / 10 ^ 6)) val
      in if higherIsSuspicious baseline
         then lift1 (\<lambda>z. max 0 z) zScore
         else lift1 (\<lambda>z. max 0 (- z)) zScore)"

text \<open>
  The loop of \<open>computeEnsembleScore\<close>: the state is the pair
  \<open>(weightedSum, totalWeight)\<close>; a \<open>null\<close> slot is skipped (\<open>continue\<close>).
\<close>

definition ensemble_step :: "AMAFFeatureVector \<Rightarrow> FeatureKey \<Rightarrow> jsnum \<times> real \<Rightarrow> jsnum \<times> real" where
  "ensemble_step vector key acc =
     (case slot vector key of
        None \<Rightarrow> acc
      | Some val \<Rightarrow>
          (let baseline = FEATURE_BASELINES key;
               anomalyScore = normalizeFeature key val
           in (lift2 (+) (fst acc) (lift1 (\<lambda>a. a * weight baseline) anomalyScore),
               snd acc + weight baseline)))"

definition ensemble_loop :: "AMAFFeatureVector \<Rightarrow> jsnum \<times> real" where
  "ensemble_loop vector = fold (ensemble_step vector) feature_keys (Num 0, 0)"

definition totalWeight :: "AMAFFeatureVector \<Rightarrow> real" where
  "totalWeight vector = snd (ensemble_loop vector)"

definition computeEnsembleScore :: "AMAFFeatureVector \<Rightarrow> jsnum" where
  "computeEnsembleScore vector =
     (let weightedSum = fst (ensemble_loop vector);
          tw = snd (ensemble_loop vector)
      in if tw > 0 then lift1 (\<lambda>s. s / tw) weightedSum else Num 0)"

definition plattScale :: "jsnum \<Rightarrow> real \<Rightarrow> real \<Rightarrow> jsnum" where
  "plattScale rawScore A B =
     lift1 (\<lambda>s. let exponent = - (A * s + B) in 1 / (1 + exp exponent)) rawScore"

text \<open>The default calibration parameters of \<open>plattScale\<close>.\<close>

definition plattScale_default :: "jsnum \<Rightarrow> jsnum" where
  "plattScale_default rawScore = plattScale rawScore 2.5 (- 1.0)"

record RiskClass =
  riskLevel :: RiskLevel
  riskScore :: jsnum

definition classifyRisk :: "jsnum \<Rightarrow> RiskClass" where
  "classifyRisk probability =
     \<lparr>riskLevel =
        (if js_le (Num 0.8) probability then high_risk
         else if js_le (Num 0.55) probability then harmful
         else if js_le (Num 0.3) probability then suspicious
         else low),
      riskScore = lift1 (\<lambda>p. real_of_int (math_round (p * 100))) probability\<rparr>"

text \<open>The order of the risk tiers, lowest first.\<close>

fun tier :: "RiskLevel \<Rightarrow> nat" where
  "tier low = 0"
| "tier suspicious = 1"
| "tier harmful = 2"
| "tier high_risk = 3"

text \<open>
  The contribution of a slot to the numerator of the ensemble score, as a real number:
  its anomaly score times its weight.
\<close>

definition contribution :: "AMAFFeatureVector \<Rightarrow> FeatureKey \<Rightarrow> real" where
  "contribution v k =
     (case slot v k of
        None \<Rightarrow> 0
      | Some val \<Rightarrow>
          (case normalizeFeature k val of
             Num a \<Rightarrow> a * weight (FEATURE_BASELINES k)
           | NaN \<Rightarrow> 0))"

definition populated :: "AMAFFeatureVector \<Rightarrow> FeatureKey list" where
  "populated v = filter (\<lambda>k. slot v k \<noteq> None) feature_keys"

text \<open>A slot holds a number when it is \<open>null\<close> or a real number (not \<open>NaN\<close>).\<close>

definition numeric :: "AMAFFeatureVector \<Rightarrow> bool" where
  "numeric v = list_all (\<lambda>k. slot v k \<noteq> Some NaN) feature_keys"


section \<open>Change detector (change-detector.ts)\<close>

record SegmentAuthenticity =
  segmentIndex :: int
  startTime :: real
  endTime :: real
  authenticityScore :: real
  flagged :: bool

datatype Direction = increase | decrease

record ChangePoint =
  timestamp :: real
  cp_segmentIndex :: int
  cusumValue :: real
  direction :: Direction

text \<open>The variables the CUSUM loop of \<open>detectChangePoints\<close> updates.\<close>

record CusumState =
  cusumUpper :: real
  cusumLower :: real
  changePoints :: "ChangePoint list"
  alreadyFlagged :: "nat set"

definition cusum_init :: CusumState where
  "cusum_init = \<lparr>cusumUpper = 0, cusumLower = 0, changePoints = [], alreadyFlagged = {}\<rparr>"

text \<open>The sequence mean: \<open>scores.reduce((a, b) => a + b, 0) / scores.length\<close>.\<close>

definition scores_mean :: "SegmentAuthenticity list \<Rightarrow> real" where
  "scores_mean segments =
     (let scores = map authenticityScore segments
      in reduce_sum (\<lambda>b. b) scores / real (length scores))"

text \<open>One iteration of the loop, at index \<open>i\<close> (in range: \<open>i < scores.length\<close>).\<close>

definition cusum_step ::
  "SegmentAuthenticity list \<Rightarrow> real \<Rightarrow> real \<Rightarrow> nat \<Rightarrow> CusumState \<Rightarrow> CusumState" where
  "cusum_step segments allowance threshold i st =
     (let scores = map authenticityScore segments;
          mu = scores_mean segments;
          st1 = st\<lparr>cusumUpper := max 0 (cusumUpper st + (mu - scores ! i - allowance))\<rparr>;
          st2 = st1\<lparr>cusumLower := max 0 (cusumLower st1 + (scores ! i - mu - allowance))\<rparr>;
          st3 = (if cusumUpper st2 > threshold \<and> i \<notin> alreadyFlagged st2
                 then st2\<lparr>changePoints := changePoints st2 @
                              [\<lparr>timestamp = startTime (segments ! i),
                                cp_segmentIndex = int i,
                                cusumValue = cusumUpper st2,
                                direction = increase\<rparr>],
                            alreadyFlagged := insert i (alreadyFlagged st2),
                            cusumUpper := 0\<rparr>
                 else st2)
      in if cusumLower st3 > threshold \<and> i \<notin> alreadyFlagged st3
         then st3\<lparr>changePoints := changePoints st3 @
                      [\<lparr>timestamp = startTime (segments ! i),
                        cp_segmentIndex = int i,
                        cusumValue = cusumLower st3,
                        direction = decrease\<rparr>],
                    alreadyFlagged := insert i (alreadyFlagged st3),
                    cusumLower := 0\<rparr>
         else st3)"

text \<open>The state after the first \<open>n\<close> iterations of the loop.\<close>

definition cusum_run ::
  "SegmentAuthenticity list \<Rightarrow> real \<Rightarrow> real \<Rightarrow> nat \<Rightarrow> CusumState" where
  "cusum_run segments allowance threshold n =
     fold (cusum_step segments allowance threshold) [0..<n] cusum_init"

definition detectChangePoints ::
  "SegmentAuthenticity list \<Rightarrow> real \<Rightarrow> real \<Rightarrow> ChangePoint list" where
  "detectChangePoints segments allowance threshold =
     (if length segments < 3 then []
      else changePoints (cusum_run segments allowance threshold (length segments)))"

text \<open>The default arguments: allowance 0.1, threshold 0.5.\<close>

definition detectChangePoints_default :: "SegmentAuthenticity list \<Rightarrow> ChangePoint list" where
  "detectChangePoints_default segments = detectChangePoints segments 0.1 0.5"

text \<open>
  \<open>enrichSegmentsWithChangePoints\<close>: the inner loop runs \<open>i\<close> from \<open>start\<close> to
  \<open>end\<close>, both integers with \<open>0 \<le> start\<close> and \<open>end \<le> length - 1\<close>, so every
  \<open>enriched[i]\<close> it reads exists. Segment indices and the radius are integers.
\<close>

definition enrich_at :: "ChangePoint \<Rightarrow> int \<Rightarrow> SegmentAuthenticity list \<Rightarrow> SegmentAuthenticity list" where
  "enrich_at cp i enriched =
     (if \<not> flagged (enriched ! nat i) \<and> direction cp = increase
      then enriched[nat i := (enriched ! nat i)\<lparr>flagged := True\<rparr>]
      else enriched)"

definition enrich_cp :: "int \<Rightarrow> ChangePoint \<Rightarrow> SegmentAuthenticity list \<Rightarrow> SegmentAuthenticity list" where
  "enrich_cp radiusSegments cp enriched =
     (let start = max 0 (cp_segmentIndex cp - radiusSegments);
          end = min (int (length enriched) - 1) (cp_segmentIndex cp + radiusSegments)
      in fold (enrich_at cp) [start..end] enriched)"

definition enrichSegmentsWithChangePoints ::
  "SegmentAuthenticity list \<Rightarrow> ChangePoint list \<Rightarrow> int \<Rightarrow> SegmentAuthenticity list" where
  "enrichSegmentsWithChangePoints segments cps radiusSegments =
     fold (enrich_cp radiusSegments) cps segments"

definition enrichSegmentsWithChangePoints_default ::
  "SegmentAuthenticity list \<Rightarrow> ChangePoint list \<Rightarrow> SegmentAuthenticity list" where
  "enrichSegmentsWithChangePoints_default segments cps =
     enrichSegmentsWithChangePoints segments cps 1"


section \<open>Confidence manager (confidence-manager.ts)\<close>

text \<open>
  The \<open>reason\<close> of a decision is a text built from the probability and the counter; the
  model keeps which text it is and the numbers it shows.
\<close>

datatype EscalationReason =
    HighConfidenceStable jsnum real
  | AmbiguousToLevel2 jsnum
  | RandomToLevel2
  | StillAmbiguousToLevel3 jsnum
  | RandomToLevel3
  | MaximumDepthReached
  | ConfidenceSufficient jsnum

record EscalationDecision =
  shouldEscalate :: bool
  nextLevel :: "AnalysisLevel option"
  earlyExit :: bool
  reason :: EscalationReason

text \<open>
  \<open>evaluateEscalation\<close>. The first argument is the value \<open>Math.random()\<close> returns when
  the function draws it (a number in \<open>[0, 1)\<close>); the early-exit branch returns before
  the draw. \<open>stableFrameCount\<close> is 0 when the caller omits it.
\<close>

definition evaluateEscalation ::
  "real \<Rightarrow> AnalysisLevel \<Rightarrow> jsnum \<Rightarrow> jsnum \<Rightarrow> AMAFFeatureVector \<Rightarrow> real \<Rightarrow> EscalationDecision" where
  "evaluateEscalation random currentLevel rawScore fakeProbability vector stableFrameCount =
     (if (js_lt (Num 0.95) fakeProbability \<or> js_lt fakeProbability (Num 0.05))
         \<and> stableFrameCount \<ge> 3
      then \<lparr>shouldEscalate = False, nextLevel = None, earlyExit = True,
            reason = HighConfidenceStable fakeProbability stableFrameCount\<rparr>
      else
        (let randomEscalate = (random < 0.2);
             isAmbiguous = (js_le (Num 0.25) fakeProbability \<and> js_le fakeProbability (Num 0.75))
         in if currentLevel = level1_lightweight \<and> (isAmbiguous \<or> randomEscalate)
            then \<lparr>shouldEscalate = True, nextLevel = Some level2_deep_spatial, earlyExit = False,
                  reason = (if isAmbiguous then AmbiguousToLevel2 fakeProbability
                            else RandomToLevel2)\<rparr>
            else if currentLevel = level2_deep_spatial \<and> (isAmbiguous \<or> randomEscalate)
            then \<lparr>shouldEscalate = True, nextLevel = Some level3_temporal_crossmodal,
                  earlyExit = False,
                  reason = (if isAmbiguous then StillAmbiguousToLevel3 fakeProbability
                            else RandomToLevel3)\<rparr>
            else \<lparr>shouldEscalate = False, nextLevel = None, earlyExit = False,
                  reason = (if currentLevel = level3_temporal_crossmodal
                            then MaximumDepthReached
                            else ConfidenceSufficient fakeProbability)\<rparr>))"

datatype DetectedMediaType = mt_image | mt_video | mt_audio | mt_unknown

definition determineStartLevel :: "DetectedMediaType \<Rightarrow> real \<Rightarrow> AnalysisLevel" where
  "determineStartLevel mediaType fileSize =
     (if mediaType = mt_image \<and> fileSize < 500000 then level2_deep_spatial
      else if mediaType = mt_video \<and> fileSize > 20000000 then level1_lightweight
      else if mediaType = mt_audio then level2_deep_spatial
      else level1_lightweight)"


section \<open>Video detector: optical flow (video-detector.ts)\<close>

text \<open>
  \<open>ImageData\<close>: \<open>data\<close> is the \<open>Uint8ClampedArray\<close> of RGBA bytes, four per pixel, row
  by row. Reading a typed array beyond its end gives \<open>undefined\<close>, which arithmetic
  turns into \<open>NaN\<close>.
\<close>

record ImageData =
  width :: nat
  height :: nat
  data :: "nat list"

definition byte_at :: "nat list \<Rightarrow> nat \<Rightarrow> jsnum" where
  "byte_at d i = (if i < length d then Num (real (d ! i)) else NaN)"

definition num_at :: "jsnum list \<Rightarrow> nat \<Rightarrow> jsnum" where
  "num_at a i = (if i < length a then a ! i else NaN)"

definition toGrayscale :: "ImageData \<Rightarrow> jsnum list" where
  "toGrayscale frame =
     map (\<lambda>i. let idx = i * 4
              in lift2 (+)
                   (lift2 (+) (lift1 (\<lambda>v. 0.299 * v) (byte_at (data frame) idx))
                              (lift1 (\<lambda>v. 0.587 * v) (byte_at (data frame) (idx + 1))))
                   (lift1 (\<lambda>v. 0.114 * v) (byte_at (data frame) (idx + 2))))
       [0..<width frame * height frame]"

record OpticalFlowMetrics =
  of_fav :: real
  flowMagnitudes :: "real list"

text \<open>
  The sum of absolute differences between the block of the current frame at
  \<open>(bx, by)\<close> and the block of the previous frame at \<open>(px, py)\<close>.
\<close>

definition block_sad ::
  "jsnum list \<Rightarrow> jsnum list \<Rightarrow> nat \<Rightarrow> nat \<Rightarrow> nat \<Rightarrow> nat \<Rightarrow> nat \<Rightarrow> nat \<Rightarrow> jsnum" where
  "block_sad currGray prevGray w blockSize bx by px py =
     fold (\<lambda>y sad.
             fold (\<lambda>x sad.
                     lift2 (+) sad
                       (lift1 abs
                          (lift2 (-) (num_at currGray ((by + y) * w + (bx + x)))
                                     (num_at prevGray ((py + y) * w + (px + x))))))
               [0..<blockSize] sad)
       [0..<blockSize] (Num 0)"

text \<open>
  The search state is \<open>(bestDist, bestDx, bestDy)\<close>; \<open>bestDist = None\<close> is the initial
  \<open>Infinity\<close>. A candidate that leaves the frame is skipped; \<open>sad < bestDist\<close> is false
  for a \<open>NaN\<close> sum.
\<close>

definition search_step ::
  "jsnum list \<Rightarrow> jsnum list \<Rightarrow> nat \<Rightarrow> nat \<Rightarrow> nat \<Rightarrow> nat \<Rightarrow> nat \<Rightarrow> int \<Rightarrow> int
     \<Rightarrow> real option \<times> int \<times> int \<Rightarrow> real option \<times> int \<times> int" where
  "search_step currGray prevGray w h blockSize bx by dy dx best =
     (let py = int by + dy;
          px = int bx + dx
      in if py < 0 \<or> py + int blockSize > int h \<or> px < 0 \<or> px + int blockSize > int w
         then best
         else (case block_sad currGray prevGray w blockSize bx by (nat px) (nat py) of
                 NaN \<Rightarrow> best
               | Num sad \<Rightarrow>
                   (if (case fst best of None \<Rightarrow> True | Some bestDist \<Rightarrow> sad < bestDist)
                    then (Some sad, dx, dy)
                    else best)))"

definition searchRange :: int where
  "searchRange = 4"

definition block_search ::
  "jsnum list \<Rightarrow> jsnum list \<Rightarrow> nat \<Rightarrow> nat \<Rightarrow> nat \<Rightarrow> nat \<Rightarrow> nat \<Rightarrow> real option \<times> int \<times> int" where
  "block_search currGray prevGray w h blockSize bx by =
     fold (\<lambda>dy best.
             fold (\<lambda>dx best. search_step currGray prevGray w h blockSize bx by dy dx best)
               [- searchRange..searchRange] best)
       [- searchRange..searchRange] (None, 0, 0)"

text \<open>
  The block origins \<open>0, blockSize, 2 * blockSize, ...\<close> with \<open>b + blockSize \<le> n\<close>, for
  \<open>blockSize > 0\<close> (16 by default; with 0 the source's loop does not advance).
\<close>

definition block_origins :: "nat \<Rightarrow> nat \<Rightarrow> nat list" where
  "block_origins n blockSize = map (\<lambda>k. k * blockSize) [0..<n div blockSize]"

text \<open>The flow magnitude of one transition: the state is \<open>(totalFlow, blockCount)\<close>.\<close>

definition pair_flow :: "ImageData \<Rightarrow> ImageData \<Rightarrow> nat \<Rightarrow> real" where
  "pair_flow prevFrame currFrame blockSize =
     (let prevGray = toGrayscale prevFrame;
          currGray = toGrayscale currFrame;
          w = width currFrame;
          h = height currFrame;
          acc = fold (\<lambda>by acc.
                        fold (\<lambda>bx acc.
                                (case block_search currGray prevGray w h blockSize bx by of
                                   (bestDist, bestDx, bestDy) \<Rightarrow>
                                     (fst acc + sqrt (real_of_int (bestDx * bestDx + bestDy * bestDy)),
                                      snd acc + (1::nat))))
                          (block_origins w blockSize) acc)
                  (block_origins h blockSize) (0, 0)
      in if snd acc > 0 then fst acc / real (snd acc) else 0)"

definition accelerations :: "real list \<Rightarrow> real list" where
  "accelerations ms = map (\<lambda>i. \<bar>ms ! i - ms ! (i - 1)\<bar>) [1..<length ms]"

definition computeOpticalFlow :: "ImageData list \<Rightarrow> nat \<Rightarrow> OpticalFlowMetrics" where
  "computeOpticalFlow frames blockSize =
     (if length frames < 3 then \<lparr>of_fav = 0, flowMagnitudes = []\<rparr>
      else
        (let ms = map (\<lambda>f. pair_flow (frames ! (f - 1)) (frames ! f) blockSize)
                    [1..<length frames];
             acc = accelerations ms
         in if length acc = 0 then \<lparr>of_fav = 0, flowMagnitudes = ms\<rparr>
            else
              (let mu = reduce_sum (\<lambda>b. b) acc / real (length acc);
                   fv = reduce_sum (\<lambda>b. (b - mu) ^ 2) acc / real (length acc)
               in \<lparr>of_fav = fv, flowMagnitudes = ms\<rparr>)))"

text \<open>The first difference and the variance of a sequence, as the specification words them.\<close>

definition first_difference :: "real list \<Rightarrow> real list" where
  "first_difference ms = map (\<lambda>(a, b). b - a) (zip ms (tl ms))"

definition variance :: "real list \<Rightarrow> real" where
  "variance xs =
     (\<Sum>x\<leftarrow>xs. (x - sum_list xs / real (length xs)) ^ 2) / real (length xs)"

text \<open>
  Four frames of 17 by 16 pixels, black but for one white pixel: at \<open>(1, 0)\<close> in the
  first two frames, at \<open>(0, 0)\<close> in the last two (the picture moves one pixel to the
  left between the second and the third frame).
\<close>

definition frame_P :: ImageData where
  "frame_P = \<lparr>width = 17, height = 16,
              data = (replicate 1088 0)[4 := 255, 5 := 255, 6 := 255, 7 := 255]\<rparr>"

definition frame_Q :: ImageData where
  "frame_Q = \<lparr>width = 17, height = 16,
              data = (replicate 1088 0)[0 := 255, 1 := 255, 2 := 255, 3 := 255]\<rparr>"


section \<open>Audio detector (audio-detector.ts)\<close>

text \<open>
  Audio samples (\<open>Float32Array\<close>) are a list of reals. The frame size is an even number,
  at least 2 (the callers pass 1024 and 2048), so the hop size \<open>frameSize / 2\<close> is a
  positive integer; the model is not meant for other frame sizes.
\<close>

definition hanningWindow :: "nat \<Rightarrow> real list" where
  "hanningWindow sz =
     map (\<lambda>i. 0.5 * (1 - cos ((2 * pi * real i) / (real sz - 1)))) [0..<sz]"

text \<open>
  The frame starts of \<open>for (start = 0; start + frameSize <= samples.length; start += hopSize)\<close>,
  from \<open>start\<close> on.
\<close>

function frame_starts :: "nat \<Rightarrow> nat \<Rightarrow> nat \<Rightarrow> nat \<Rightarrow> nat list" where
  "frame_starts n frameSize hopSize start =
     (if 0 < hopSize \<and> start + frameSize \<le> n
      then start # frame_starts n frameSize hopSize (start + hopSize)
      else [])"
  by pat_completeness auto
termination
  by (relation "measure (\<lambda>(n, frameSize, hopSize, start). Suc n - start)") auto

text \<open>The magnitude spectrum of the frame that starts at \<open>start\<close>.\<close>

definition stft_frame :: "real list \<Rightarrow> nat \<Rightarrow> nat \<Rightarrow> real list" where
  "stft_frame samples frameSize start =
     (let window = hanningWindow frameSize;
          re = map (\<lambda>i. samples ! (start + i) * window ! i) [0..<frameSize];
          halfSize = frameSize div 2;
          step = (if frameSize > 512 then 2 else 1::nat);
          ns = map (\<lambda>j. j * step) [0..<(frameSize + step - 1) div step]
      in map (\<lambda>k.
            let angle = (\<lambda>n. (2 * pi * real k * real n) / real frameSize);
                sumRe = fold (\<lambda>n acc. acc + re ! n * cos (angle n)) ns 0;
                sumIm = fold (\<lambda>n acc. acc - re ! n * sin (angle n)) ns 0
            in sqrt (sumRe * sumRe + sumIm * sumIm) * real step)
          [0..<halfSize])"

definition computeSTFT :: "real list \<Rightarrow> nat \<Rightarrow> nat \<Rightarrow> real list list" where
  "computeSTFT samples frameSize hopSize =
     map (stft_frame samples frameSize) (frame_starts (length samples) frameSize hopSize 0)"

definition frameEnergy :: "real list \<Rightarrow> real" where
  "frameEnergy spectrum = fold (\<lambda>x energy. energy + x * x) spectrum 0"

definition kurtosis :: "real list \<Rightarrow> real" where
  "kurtosis vals =
     (if length vals < 4 then 0
      else
        (let n = real (length vals);
             mu = reduce_sum (\<lambda>b. b) vals / n;
             var = reduce_sum (\<lambda>b. (b - mu) ^ 2) vals / n
         in if var < 1 / 10 ^ 10 then 0
            else
              (let m4 = reduce_sum (\<lambda>b. (b - mu) ^ 4) vals / n
               in m4 / (var * var) - 3)))"

record EnergyTransitionMetrics =
  em_etk :: real
  energyDeltas :: "real list"

definition computeEnergyTransition :: "real list \<Rightarrow> nat \<Rightarrow> EnergyTransitionMetrics" where
  "computeEnergyTransition samples frameSize =
     (let spectra = computeSTFT samples frameSize (frameSize div 2);
          energies = map frameEnergy spectra;
          deltas = map (\<lambda>i. energies ! i - energies ! (i - 1)) [1..<length energies]
      in \<lparr>em_etk = \<bar>kurtosis deltas\<bar>, energyDeltas = deltas\<rparr>)"

record PitchMetrics =
  pm_pvss :: real
  pitchContour :: "real list"

text \<open>
  The autocorrelation search of one frame: the state is \<open>(bestCorr, bestPeriod)\<close>, the
  inner sums run over \<open>i = 0, 2, 4, ...\<close> below \<open>len = frameSize - lag\<close>.
\<close>

definition pitch_lag_step ::
  "real list \<Rightarrow> nat \<Rightarrow> nat \<Rightarrow> nat \<Rightarrow> real \<times> nat \<Rightarrow> real \<times> nat" where
  "pitch_lag_step samples frameSize start lag best =
     (let len = frameSize - lag;
          idx = map (\<lambda>j. 2 * j) [0..<(len + 1) div 2];
          corr = fold (\<lambda>i acc. acc + samples ! (start + i) * samples ! (start + i + lag)) idx 0;
          norm1 = fold (\<lambda>i acc. acc + samples ! (start + i) * samples ! (start + i)) idx 0;
          norm2 = fold (\<lambda>i acc. acc + samples ! (start + i + lag) * samples ! (start + i + lag))
                    idx 0;
          normFactor = sqrt (norm1 * norm2);
          normalized = (if normFactor > 0 then corr / normFactor else 0)
      in if normalized > fst best then (normalized, lag) else best)"

definition frame_pitch :: "real list \<Rightarrow> nat \<Rightarrow> nat \<Rightarrow> nat \<Rightarrow> real" where
  "frame_pitch samples sampleRate frameSize start =
     (let minPeriod = sampleRate div 500;
          maxPeriod = sampleRate div 60;
          best = fold (pitch_lag_step samples frameSize start)
                   [minPeriod..<min maxPeriod (frameSize div 2)] (- 1, 0)
      in if fst best > 0.3 \<and> snd best > 0 then real sampleRate / real (snd best) else 0)"

definition computePitchMetrics :: "real list \<Rightarrow> nat \<Rightarrow> nat \<Rightarrow> PitchMetrics" where
  "computePitchMetrics samples sampleRate frameSize =
     (let hopSize = frameSize div 2;
          contour = map (frame_pitch samples sampleRate frameSize)
                      (frame_starts (length samples) frameSize hopSize 0);
          validPitch = filter (\<lambda>p. p > 0) contour
      in if length validPitch < 4 then \<lparr>pm_pvss = 0, pitchContour = contour\<rparr>
         else
           (let d2 = map (\<lambda>i. validPitch ! i - 2 * validPitch ! (i - 1) + validPitch ! (i - 2))
                       [2..<length validPitch];
                mu = reduce_sum (\<lambda>b. b) d2 / real (length d2);
                pv = reduce_sum (\<lambda>b. (b - mu) ^ 2) d2 / real (length d2)
            in \<lparr>pm_pvss = pv, pitchContour = contour\<rparr>))"

record SpectralFlatnessMetrics =
  sf_frd :: jsnum
  flatnessValues :: "real list"

text \<open>
  The flatness of one spectrum; the loop runs over the bins \<open>1, ..., length - 1\<close> with the
  state \<open>(logSum, arithmeticSum, count)\<close>.
\<close>

definition frame_flatness :: "real list \<Rightarrow> real" where
  "frame_flatness spectrum =
     (case fold (\<lambda>i (logSum, arithmeticSum, count).
                   let v = max (spectrum ! i) (1 / 10 ^ 10)
                   in (logSum + ln v, arithmeticSum + v, count + (1::nat)))
             [1..<length spectrum] (0, 0, 0) of
        (logSum, arithmeticSum, count) \<Rightarrow>
          if count = 0 \<or> arithmeticSum < 1 / 10 ^ 10 then 0
          else
            (let geometricMean = exp (logSum / real count);
                 arithmeticMean = arithmeticSum / real count
             in geometricMean / arithmeticMean))"

text \<open>
  The quotient of a sum by a length. With an empty list it is \<open>0 / 0\<close>, which is
  \<open>NaN\<close> in JavaScript (HOL's \<open>0 / 0\<close> is 0).
\<close>

definition mean_or_NaN :: "real list \<Rightarrow> jsnum" where
  "mean_or_NaN xs = (if length xs = 0 then NaN else Num (reduce_sum (\<lambda>b. b) xs / real (length xs)))"

definition computeSpectralFlatness :: "real list \<Rightarrow> nat \<Rightarrow> SpectralFlatnessMetrics" where
  "computeSpectralFlatness samples frameSize =
     (let spectra = computeSTFT samples frameSize (frameSize div 2);
          fvs = map frame_flatness spectra;
          meanFlatness = mean_or_NaN fvs;
          naturalBaseline = 0.1
      in \<lparr>sf_frd = lift1 (\<lambda>m. \<bar>m - naturalBaseline\<bar> / naturalBaseline) meanFlatness,
          flatnessValues = fvs\<rparr>)"


section \<open>Image detector: the spectral core (image-detector.ts)\<close>

text \<open>
  \<open>fft1d\<close> transforms two arrays of the same length in place: the real and the
  imaginary parts of a sequence of complex numbers. The model passes the pair of arrays
  and returns the updated pair. The operators \<open>>>\<close>, \<open><<\<close>, \<open>&\<close> and \<open>^\<close> of the source
  work on 32-bit integers; here they act on natural numbers, with which they agree for
  the indices and lengths of arrays shorter than \<open>2 ^ 30\<close>. The elements are real
  numbers: the transform only adds, subtracts and multiplies them, so it produces no
  \<open>NaN\<close> from numbers.
\<close>

text \<open>
  The inner \<open>while\<close> loop of the bit-reversal permutation: it clears the leading set
  bits of \<open>j\<close> below \<open>n >> 1\<close>, and leaves in \<open>bt\<close> the bit that \<open>j ^= bit\<close> then sets.
\<close>

function rev_step :: "nat \<Rightarrow> nat \<Rightarrow> nat \<times> nat" where
  "rev_step j bt =
     (if and j bt \<noteq> 0 then rev_step (xor j bt) (drop_bit 1 bt) else (j, bt))"
  by pat_completeness auto
termination
proof (relation "measure snd")
  show "wf (measure snd)" by simp
next
  fix j bt :: nat
  assume "and j bt \<noteq> 0"
  then have "bt \<noteq> 0" by (cases "bt = 0") simp_all
  then show "((xor j bt, drop_bit 1 bt), (j, bt)) \<in> measure snd"
    by (simp add: drop_bit_eq_div)
qed

definition next_j :: "nat \<Rightarrow> nat \<Rightarrow> nat" where
  "next_j n j = (case rev_step j (drop_bit 1 n) of (j', bt) \<Rightarrow> xor j' bt)"

text \<open>
  The destructuring assignment \<open>[a[i], a[j]] = [a[j], a[i]]\<close>: both elements are read
  before either is written.
\<close>

definition swap_at :: "'a list \<Rightarrow> nat \<Rightarrow> nat \<Rightarrow> 'a list" where
  "swap_at xs i j = xs[i := xs ! j, j := xs ! i]"

text \<open>
  One iteration of the \<open>for\<close> loop over \<open>i\<close>, on the state \<open>(j, real, imag)\<close>, and the
  whole loop.
\<close>

definition bitrev_step ::
  "nat \<Rightarrow> nat \<Rightarrow> nat \<times> real list \<times> real list \<Rightarrow> nat \<times> real list \<times> real list" where
  "bitrev_step n i st =
     (case st of (j, re, im) \<Rightarrow>
        (let j' = next_j n j
         in if i < j' then (j', swap_at re i j', swap_at im i j') else (j', re, im)))"

definition bit_reverse :: "nat \<Rightarrow> real list \<times> real list \<Rightarrow> real list \<times> real list" where
  "bit_reverse n a =
     (case fold (bitrev_step n) [1..<n] (0, fst a, snd a) of (j, re, im) \<Rightarrow> (re, im))"

text \<open>
  The body of the innermost butterfly loop, on the state
  \<open>(real, imag, curRe, curIm)\<close>. The indices \<open>i + k\<close> and \<open>i + k + len / 2\<close> lie within the
  arrays whenever \<open>len\<close> divides their length, which is the case for a length that is a
  power of two.
\<close>

definition butterfly ::
  "nat \<Rightarrow> real \<Rightarrow> real \<Rightarrow> nat \<Rightarrow> nat \<Rightarrow> real list \<times> real list \<times> real \<times> real
     \<Rightarrow> real list \<times> real list \<times> real \<times> real" where
  "butterfly len wRe wIm i k st =
     (case st of (re, im, curRe, curIm) \<Rightarrow>
        (let hi = i + k + len div 2;
             lo = i + k;
             tRe = curRe * re ! hi - curIm * im ! hi;
             tIm = curRe * im ! hi + curIm * re ! hi;
             re1 = re[hi := re ! lo - tRe];
             im1 = im[hi := im ! lo - tIm];
             re2 = re1[lo := re1 ! lo + tRe];
             im2 = im1[lo := im1 ! lo + tIm];
             newCurRe = curRe * wRe - curIm * wIm;
             curIm1 = curRe * wIm + curIm * wRe
         in (re2, im2, newCurRe, curIm1)))"

text \<open>
  The loop over \<open>k\<close> for one block starting at \<open>i\<close>, the loop over the blocks
  (\<open>i = 0, len, 2 * len, \<dots>\<close> while \<open>i < n\<close>), and the loop over the pass lengths
  (\<open>len = 2, 4, 8, \<dots>\<close> while \<open>len \<le> n\<close>). Every \<open>len\<close> is a power of two, so that
  \<open>len / 2\<close> is the integer \<open>len div 2\<close>; the test \<open>0 < len\<close>, true of every length the
  loop reaches, is what makes the recursion over the pass lengths well-founded.
\<close>

definition fft_block ::
  "nat \<Rightarrow> real \<Rightarrow> real \<Rightarrow> nat \<Rightarrow> real list \<times> real list \<Rightarrow> real list \<times> real list" where
  "fft_block len wRe wIm i a =
     (case fold (butterfly len wRe wIm i) [0..<len div 2] (fst a, snd a, 1, 0) of
        (re, im, curRe, curIm) \<Rightarrow> (re, im))"

definition fft_pass :: "nat \<Rightarrow> nat \<Rightarrow> real list \<times> real list \<Rightarrow> real list \<times> real list" where
  "fft_pass n len a =
     (let angle = (- 2 * pi) / real len;
          wRe = cos angle;
          wIm = sin angle
      in fold (fft_block len wRe wIm) (map (\<lambda>b. b * len) [0..<(n + len - 1) div len]) a)"

function fft_passes :: "nat \<Rightarrow> nat \<Rightarrow> real list \<times> real list \<Rightarrow> real list \<times> real list" where
  "fft_passes n len a =
     (if 0 < len \<and> len \<le> n then fft_passes n (2 * len) (fft_pass n len a) else a)"
  by pat_completeness auto
termination
  by (relation "measure (\<lambda>(n, len, a). n + 1 - len)") auto

declare fft_passes.simps [simp del]

definition fft1d :: "real list \<times> real list \<Rightarrow> real list \<times> real list" where
  "fft1d a =
     (let n = length (fst a)
      in if n \<le> 1 then a else fft_passes n 2 (bit_reverse n a))"


section \<open>Detection signals\<close>

datatype Category = visual | temporal | spectral | semantic | metadata

text \<open>
  A detection signal. Its free-text description is left out: no claim reads it, and it is
  built from the same metric values the other fields hold.
\<close>

record DetectionSignalOutput =
  sig_id :: string
  sig_name :: string
  category :: Category
  confidence :: jsnum
  severity :: RiskLevel
  metricValue :: "jsnum option"

record AudioResult =
  energyTransition :: EnergyTransitionMetrics
  pitch :: PitchMetrics
  spectralFlatness :: SpectralFlatnessMetrics
  au_signals :: "DetectionSignalOutput list"

text \<open>
  Each \<open>if (...) signals.push({...})\<close> block of the analysers is a list of no or one
  signal; an analyser's signal list is their concatenation, in the order of the source.
\<close>

definition etk_signal :: "EnergyTransitionMetrics \<Rightarrow> DetectionSignalOutput list" where
  "etk_signal et =
     (if em_etk et > 5
      then [\<lparr>sig_id = ''audio-etk-high'', sig_name = ''Sharp Energy Transitions'',
             category = spectral,
             confidence = Num (min 0.85 (0.4 + em_etk et * 0.05)),
             severity = (if em_etk et > 15 then high_risk else suspicious),
             metricValue = Some (Num (em_etk et))\<rparr>]
      else [])"

definition pvss_signal :: "PitchMetrics \<Rightarrow> DetectionSignalOutput list" where
  "pvss_signal pt =
     (if pm_pvss pt < 5 \<and> length (filter (\<lambda>p. p > 0) (pitchContour pt)) > 10
      then [\<lparr>sig_id = ''audio-pvss-smooth'', sig_name = ''Over-Smooth Pitch Contour'',
             category = spectral,
             confidence = Num (min 0.8 (0.5 + (5 - pm_pvss pt) * 0.05)),
             severity = (if pm_pvss pt < 1 then harmful else suspicious),
             metricValue = Some (Num (pm_pvss pt))\<rparr>]
      else [])"

definition frd_signal :: "SpectralFlatnessMetrics \<Rightarrow> DetectionSignalOutput list" where
  "frd_signal sf =
     (if js_lt (Num 0.5) (sf_frd sf)
      then [\<lparr>sig_id = ''audio-frd-anomaly'', sig_name = ''Spectral Flatness Anomaly'',
             category = spectral,
             confidence = lift1 (\<lambda>f. min 0.75 (0.3 + f * 0.3)) (sf_frd sf),
             severity = (if js_lt (Num 1.0) (sf_frd sf) then harmful else suspicious),
             metricValue = Some (sf_frd sf)\<rparr>]
      else [])"

definition analyzeAudio :: "real list \<Rightarrow> nat \<Rightarrow> AudioResult" where
  "analyzeAudio samples sampleRate =
     (let et = computeEnergyTransition samples 1024;
          pt = computePitchMetrics samples sampleRate 2048;
          sf = computeSpectralFlatness samples 1024
      in \<lparr>energyTransition = et, pitch = pt, spectralFlatness = sf,
          au_signals = etk_signal et @ pvss_signal pt @ frd_signal sf\<rparr>)"


section \<open>Image and video analysis (image-detector.ts, video-detector.ts)\<close>

record FrequencyMetrics =
  fm_hfer :: jsnum
  fm_svd :: jsnum

record TextureMetrics =
  tm_pdi :: jsnum
  patchScores :: "jsnum list"
  gridSize :: nat

record TemporalIdentityMetrics =
  ti_tiis :: jsnum
  frameDrifts :: "jsnum list"

record ImageMetadata =
  exifPresent :: bool
  hasBeenEdited :: bool
  compressionAnomalies :: bool
  softwareUsed :: "string option"

text \<open>
  The numeric routines whose values no claim depends on are parameters of the model: the
  spectrum and texture metrics of a pixel grid, the byte scan of \<open>analyzeImageMetadata\<close>
  (everything before its signals are generated), the identity drift of a frame sequence
  and the segment scores. What is proved about the pipeline holds for every value they
  return, \<open>NaN\<close> included.
\<close>

record Extractors =
  computeFrequencyMetrics :: "ImageData \<Rightarrow> FrequencyMetrics"
  computeTextureMetrics :: "ImageData \<Rightarrow> TextureMetrics"
  scanImageMetadata :: "nat list \<Rightarrow> ImageMetadata"
  computeTemporalIdentity :: "ImageData list \<Rightarrow> TemporalIdentityMetrics"
  computeSegmentAuthenticity :: "ImageData list \<Rightarrow> SegmentAuthenticity list"

text \<open>The signals \<open>analyzeImageMetadata\<close> generates from what the byte scan found.\<close>

definition metadata_signals :: "ImageMetadata \<Rightarrow> DetectionSignalOutput list" where
  "metadata_signals m =
     (if \<not> exifPresent m
      then [\<lparr>sig_id = ''meta-exif-stripped'', sig_name = ''EXIF Metadata Stripped'',
             category = metadata, confidence = Num 0.65, severity = suspicious,
             metricValue = None\<rparr>]
      else [])
     @ (if hasBeenEdited m
        then [\<lparr>sig_id = ''meta-edited'', sig_name = ''Editing Software Detected'',
               category = metadata, confidence = Num 0.7, severity = suspicious,
               metricValue = None\<rparr>]
        else [])
     @ (if compressionAnomalies m
        then [\<lparr>sig_id = ''meta-recompression'', sig_name = ''Re-Compression Detected'',
               category = metadata, confidence = Num 0.55, severity = low,
               metricValue = None\<rparr>]
        else [])"

definition hfer_low_signal :: "FrequencyMetrics \<Rightarrow> DetectionSignalOutput list" where
  "hfer_low_signal frequency =
     (if js_lt (fm_hfer frequency) (Num 0.15)
      then [\<lparr>sig_id = ''freq-hfer-low'', sig_name = ''Suppressed High-Frequency Energy'',
             category = visual,
             confidence = lift1 (\<lambda>h. min 0.95 (0.6 + (0.15 - h) * 3)) (fm_hfer frequency),
             severity = (if js_lt (fm_hfer frequency) (Num 0.08) then high_risk else harmful),
             metricValue = Some (fm_hfer frequency)\<rparr>]
      else [])"

definition svd_high_signal :: "FrequencyMetrics \<Rightarrow> DetectionSignalOutput list" where
  "svd_high_signal frequency =
     (if js_lt (Num 0.5) (fm_svd frequency)
      then [\<lparr>sig_id = ''freq-svd-high'', sig_name = ''Spectral Variance Anomaly'',
             category = visual,
             confidence = lift1 (\<lambda>v. min 0.9 (0.5 + v * 0.3)) (fm_svd frequency),
             severity = (if js_lt (Num 1.0) (fm_svd frequency) then high_risk else suspicious),
             metricValue = Some (fm_svd frequency)\<rparr>]
      else [])"

definition pdi_high_signal :: "TextureMetrics option \<Rightarrow> DetectionSignalOutput list" where
  "pdi_high_signal texture =
     (case texture of
        None \<Rightarrow> []
      | Some t \<Rightarrow>
          (if js_lt (Num 0.02) (tm_pdi t)
           then [\<lparr>sig_id = ''tex-pdi-high'', sig_name = ''Texture Consistency Drift'',
                  category = visual,
                  confidence = lift1 (\<lambda>d. min 0.85 (0.5 + d * 10)) (tm_pdi t),
                  severity = (if js_lt (Num 0.05) (tm_pdi t) then harmful else suspicious),
                  metricValue = Some (tm_pdi t)\<rparr>]
           else []))"

record ImageResult =
  ir_frequency :: FrequencyMetrics
  ir_texture :: "TextureMetrics option"
  ir_metadata :: ImageMetadata
  ir_signals :: "DetectionSignalOutput list"

definition analyzeImage :: "Extractors \<Rightarrow> ImageData \<Rightarrow> nat list \<Rightarrow> bool \<Rightarrow> ImageResult" where
  "analyzeImage ex img buffer enableTexture =
     (let frequency = computeFrequencyMetrics ex img;
          texture = (if enableTexture then Some (computeTextureMetrics ex img) else None);
          md = scanImageMetadata ex buffer
      in \<lparr>ir_frequency = frequency, ir_texture = texture, ir_metadata = md,
          ir_signals = metadata_signals md @ hfer_low_signal frequency
                       @ svd_high_signal frequency @ pdi_high_signal texture\<rparr>)"

definition analyzeImageFromBuffer ::
  "Extractors \<Rightarrow> nat list \<Rightarrow> ImageData option \<Rightarrow> ImageResult" where
  "analyzeImageFromBuffer ex buffer imageData =
     (case imageData of
        Some img \<Rightarrow> analyzeImage ex img buffer True
      | None \<Rightarrow>
          (let md = scanImageMetadata ex buffer
           in \<lparr>ir_frequency = \<lparr>fm_hfer = Num 0.5, fm_svd = Num 0\<rparr>, ir_texture = None,
               ir_metadata = md, ir_signals = metadata_signals md\<rparr>))"

record VideoResult =
  vr_frequency :: "FrequencyMetrics option"
  vr_texture :: "TextureMetrics option"
  vr_temporalIdentity :: TemporalIdentityMetrics
  vr_opticalFlow :: "OpticalFlowMetrics option"
  vr_segments :: "SegmentAuthenticity list"
  vr_signals :: "DetectionSignalOutput list"

text \<open>
  The frames \<open>analyzeVideo\<close> passes to the optical flow: all of them when there are at
  most 10, else those whose index is a multiple of \<open>ceil(length / 10)\<close>.
\<close>

definition flow_subset :: "ImageData list \<Rightarrow> ImageData list" where
  "flow_subset frames =
     (if length frames > 10
      then map (\<lambda>i. frames ! i)
             (filter (\<lambda>i. i mod ((length frames + 9) div 10) = 0) [0..<length frames])
      else frames)"

definition vid_freq_signal :: "FrequencyMetrics option \<Rightarrow> DetectionSignalOutput list" where
  "vid_freq_signal frequency =
     (case frequency of
        None \<Rightarrow> []
      | Some fq \<Rightarrow>
          (if js_lt (fm_hfer fq) (Num 0.15)
           then [\<lparr>sig_id = ''vid-freq-anomaly'', sig_name = ''Frequency Anomaly in Key Frame'',
                  category = visual,
                  confidence = lift1 (\<lambda>h. min 0.9 (0.5 + (0.15 - h) * 4)) (fm_hfer fq),
                  severity = (if js_lt (fm_hfer fq) (Num 0.08) then high_risk else harmful),
                  metricValue = Some (fm_hfer fq)\<rparr>]
           else []))"

definition vid_tiis_signal :: "TemporalIdentityMetrics \<Rightarrow> DetectionSignalOutput list" where
  "vid_tiis_signal temporalIdentity =
     (if js_lt (Num 0.05) (ti_tiis temporalIdentity)
      then [\<lparr>sig_id = ''vid-tiis-high'', sig_name = ''Temporal Identity Instability'',
             category = temporal,
             confidence = lift1 (\<lambda>t. min 0.9 (0.4 + t * 5)) (ti_tiis temporalIdentity),
             severity = (if js_lt (Num 0.1) (ti_tiis temporalIdentity)
                         then high_risk else suspicious),
             metricValue = Some (ti_tiis temporalIdentity)\<rparr>]
      else [])"

definition vid_fav_signal :: "OpticalFlowMetrics option \<Rightarrow> DetectionSignalOutput list" where
  "vid_fav_signal opticalFlow =
     (case opticalFlow of
        None \<Rightarrow> []
      | Some fl \<Rightarrow>
          (if of_fav fl > 0.5
           then [\<lparr>sig_id = ''vid-fav-high'', sig_name = ''Motion Smoothness Anomaly'',
                  category = temporal,
                  confidence = Num (min 0.85 (0.3 + of_fav fl * 0.5)),
                  severity = (if of_fav fl > 1.5 then harmful else suspicious),
                  metricValue = Some (Num (of_fav fl))\<rparr>]
           else []))"

definition vid_segment_signal :: "SegmentAuthenticity list \<Rightarrow> DetectionSignalOutput list" where
  "vid_segment_signal segs =
     (let flaggedSegments = filter flagged segs
      in if length flaggedSegments > 0
         then [\<lparr>sig_id = ''vid-segment-flags'', sig_name = ''Suspicious Video Segments'',
                category = temporal,
                confidence = Num (min 0.8 (0.4 + (real (length flaggedSegments)
                                                   / real (length segs)) * 0.5)),
                severity = (if real (length flaggedSegments) > real (length segs) / 2
                            then harmful else suspicious),
                metricValue = None\<rparr>]
         else [])"

definition analyzeVideo :: "Extractors \<Rightarrow> ImageData list \<Rightarrow> bool \<Rightarrow> bool \<Rightarrow> VideoResult" where
  "analyzeVideo ex frames enableTexture enableOpticalFlow =
     (let frequency = (if length frames > 0
                       then Some (computeFrequencyMetrics ex (frames ! (length frames div 2)))
                       else None);
          texture = (if length frames > 0 \<and> enableTexture
                     then Some (computeTextureMetrics ex (frames ! (length frames div 2)))
                     else None);
          temporalIdentity = computeTemporalIdentity ex frames;
          opticalFlow = (if enableOpticalFlow \<and> length frames \<ge> 3
                         then Some (computeOpticalFlow (flow_subset frames) 16) else None);
          segs = computeSegmentAuthenticity ex frames
      in \<lparr>vr_frequency = frequency, vr_texture = texture,
          vr_temporalIdentity = temporalIdentity, vr_opticalFlow = opticalFlow,
          vr_segments = segs,
          vr_signals = vid_freq_signal frequency @ vid_tiis_signal temporalIdentity
                       @ vid_fav_signal opticalFlow @ vid_segment_signal segs\<rparr>)"


section \<open>Pipeline orchestrator (pipeline.ts)\<close>

text \<open>
  What \<open>routeMedia\<close> hands to the pipeline: an absent \<open>frames\<close>, \<open>audioBuffer\<close> or
  \<open>imageData\<close> is \<open>None\<close>.
\<close>

record MediaRouteDecision =
  mediaType :: DetectedMediaType
  fileSize :: real
  frames :: "ImageData list option"
  audioBuffer :: "real list option"
  imageData :: "ImageData option"
  rawBuffer :: "nat list"

record Scoring =
  rawScore :: jsnum
  fakeProbability :: jsnum
  sc_riskLevel :: RiskLevel
  sc_riskScore :: jsnum

text \<open>\<open>scoreFeatureVector\<close>, without the explanation text.\<close>

definition scoreFeatureVector ::
  "AMAFFeatureVector \<Rightarrow> DetectionSignalOutput list \<Rightarrow> DetectedMediaType \<Rightarrow> Scoring" where
  "scoreFeatureVector vector sigs mt =
     (let raw = computeEnsembleScore vector;
          prob = plattScale_default raw;
          rc = classifyRisk prob
      in \<lparr>rawScore = raw, fakeProbability = prob,
          sc_riskLevel = riskLevel rc, sc_riskScore = riskScore rc\<rparr>)"

text \<open>The local variables of \<open>runPipeline\<close>.\<close>

record PipelineState =
  featureVector :: AMAFFeatureVector
  signals :: "DetectionSignalOutput list"
  segments :: "SegmentAuthenticity list"
  ps_changePoints :: "ChangePoint list"
  currentLevel :: AnalysisLevel
  ps_earlyExit :: bool
  frequencyMetrics :: "FrequencyMetrics option"
  textureMetrics :: "TextureMetrics option"
  temporalIdentityMetrics :: "TemporalIdentityMetrics option"
  opticalFlowMetrics :: "OpticalFlowMetrics option"
  energyTransitionMetrics :: "EnergyTransitionMetrics option"
  pitchMetrics :: "PitchMetrics option"
  spectralFlatnessMetrics :: "SpectralFlatnessMetrics option"

definition initial_state :: "AnalysisLevel \<Rightarrow> PipelineState" where
  "initial_state lvl =
     \<lparr>featureVector = \<lparr>hfer = None, svd = None, pdi = None, tiis = None, fav = None,
                        etk = None, pvss = None, frd = None\<rparr>,
      signals = [], segments = [], ps_changePoints = [], currentLevel = lvl,
      ps_earlyExit = False,
      frequencyMetrics = None, textureMetrics = None, temporalIdentityMetrics = None,
      opticalFlowMetrics = None, energyTransitionMetrics = None, pitchMetrics = None,
      spectralFlatnessMetrics = None\<rparr>"

text \<open>
  The merge of new signals into the running list: a signal is appended when its
  identifier is not among \<open>existingIds\<close>. The state of the loop is
  \<open>(signals, existingIds)\<close>.
\<close>

definition merge_signals ::
  "DetectionSignalOutput list \<Rightarrow> DetectionSignalOutput list \<Rightarrow> DetectionSignalOutput list" where
  "merge_signals sigs new =
     fst (fold (\<lambda>sg (acc, existingIds).
                  if sig_id sg \<notin> existingIds
                  then (acc @ [sg], insert (sig_id sg) existingIds)
                  else (acc, existingIds))
            new (sigs, set (map sig_id sigs)))"

text \<open>The frequency results of an image analysis, stored at Level 1.\<close>

definition store_image_l1 :: "ImageResult \<Rightarrow> PipelineState \<Rightarrow> PipelineState" where
  "store_image_l1 imgResult st =
     st\<lparr>featureVector := (featureVector st)
           \<lparr>hfer := Some (fm_hfer (ir_frequency imgResult)),
            svd := Some (fm_svd (ir_frequency imgResult))\<rparr>,
        frequencyMetrics := Some (ir_frequency imgResult),
        signals := signals st @ ir_signals imgResult\<rparr>"

definition level1_image :: "Extractors \<Rightarrow> MediaRouteDecision \<Rightarrow> PipelineState \<Rightarrow> PipelineState" where
  "level1_image ex route st =
     (if mediaType route = mt_image
      then (case imageData route of
              Some img \<Rightarrow> store_image_l1 (analyzeImage ex img (rawBuffer route) False) st
            | None \<Rightarrow> store_image_l1 (analyzeImageFromBuffer ex (rawBuffer route) None) st)
      else st)"

definition level1_video :: "Extractors \<Rightarrow> MediaRouteDecision \<Rightarrow> PipelineState \<Rightarrow> PipelineState" where
  "level1_video ex route st =
     (case frames route of
        None \<Rightarrow> st
      | Some fs \<Rightarrow>
          (if mediaType route = mt_video \<and> length fs > 0
           then
             (let vidResult = analyzeVideo ex fs False False;
                  st1 = (case vr_frequency vidResult of
                           None \<Rightarrow> st
                         | Some fq \<Rightarrow>
                             st\<lparr>featureVector := (featureVector st)
                                   \<lparr>hfer := Some (fm_hfer fq), svd := Some (fm_svd fq)\<rparr>,
                                frequencyMetrics := Some fq\<rparr>)
              in st1\<lparr>featureVector := (featureVector st1)
                        \<lparr>tiis := Some (ti_tiis (vr_temporalIdentity vidResult))\<rparr>,
                     temporalIdentityMetrics := Some (vr_temporalIdentity vidResult),
                     segments := vr_segments vidResult,
                     signals := signals st1 @ vr_signals vidResult\<rparr>)
           else st))"

definition level1_audio :: "MediaRouteDecision \<Rightarrow> PipelineState \<Rightarrow> PipelineState" where
  "level1_audio route st =
     (case audioBuffer route of
        None \<Rightarrow> st
      | Some buf \<Rightarrow>
          (if mediaType route = mt_audio
           then
             (let e = computeEnergyTransition buf 1024
              in st\<lparr>featureVector := (featureVector st)\<lparr>etk := Some (Num (em_etk e))\<rparr>,
                    energyTransitionMetrics := Some e\<rparr>)
           else st))"

text \<open>
  The escalation check after Level 1. \<open>evaluateEscalation\<close> is called with four
  arguments, so its \<open>stableFrameCount\<close> is the default 0.
\<close>

definition level1_escalate :: "real \<Rightarrow> MediaRouteDecision \<Rightarrow> PipelineState \<Rightarrow> PipelineState" where
  "level1_escalate random route st =
     (let scoring = scoreFeatureVector (featureVector st) (signals st) (mediaType route);
          escalation = evaluateEscalation random level1_lightweight (rawScore scoring)
                         (fakeProbability scoring) (featureVector st) 0
      in if earlyExit escalation
         then st\<lparr>ps_earlyExit := True, currentLevel := level1_lightweight\<rparr>
         else if shouldEscalate escalation \<and> currentLevel st = level1_lightweight
         then st\<lparr>currentLevel := level2_deep_spatial\<rparr>
         else st)"

definition level1 ::
  "Extractors \<Rightarrow> real \<Rightarrow> MediaRouteDecision \<Rightarrow> PipelineState \<Rightarrow> PipelineState" where
  "level1 ex random route st =
     level1_escalate random route
       (level1_audio route (level1_video ex route (level1_image ex route st)))"

definition level2_image :: "Extractors \<Rightarrow> MediaRouteDecision \<Rightarrow> PipelineState \<Rightarrow> PipelineState" where
  "level2_image ex route st =
     (case imageData route of
        None \<Rightarrow> st
      | Some img \<Rightarrow>
          (if mediaType route = mt_image
           then
             (let imgResult = analyzeImage ex img (rawBuffer route) True;
                  st1 = (case ir_texture imgResult of
                           None \<Rightarrow> st
                         | Some t \<Rightarrow>
                             st\<lparr>featureVector := (featureVector st)\<lparr>pdi := Some (tm_pdi t)\<rparr>,
                                textureMetrics := Some t\<rparr>)
              in st1\<lparr>signals := merge_signals (signals st1) (ir_signals imgResult)\<rparr>)
           else st))"

definition level2_video :: "Extractors \<Rightarrow> MediaRouteDecision \<Rightarrow> PipelineState \<Rightarrow> PipelineState" where
  "level2_video ex route st =
     (case frames route of
        None \<Rightarrow> st
      | Some fs \<Rightarrow>
          (if mediaType route = mt_video \<and> length fs > 0
           then
             (let vidResult = analyzeVideo ex fs True False;
                  st1 = (case vr_texture vidResult of
                           None \<Rightarrow> st
                         | Some t \<Rightarrow>
                             st\<lparr>featureVector := (featureVector st)\<lparr>pdi := Some (tm_pdi t)\<rparr>,
                                textureMetrics := Some t\<rparr>);
                  st2 = (case temporalIdentityMetrics st1 of
                           Some m \<Rightarrow> st1
                         | None \<Rightarrow>
                             st1\<lparr>featureVector := (featureVector st1)
                                    \<lparr>tiis := Some (ti_tiis (vr_temporalIdentity vidResult))\<rparr>,
                                 temporalIdentityMetrics :=
                                   Some (vr_temporalIdentity vidResult)\<rparr>)
              in st2\<lparr>segments := vr_segments vidResult,
                     signals := merge_signals (signals st2) (vr_signals vidResult)\<rparr>)
           else st))"

definition level2_audio :: "MediaRouteDecision \<Rightarrow> PipelineState \<Rightarrow> PipelineState" where
  "level2_audio route st =
     (case audioBuffer route of
        None \<Rightarrow> st
      | Some buf \<Rightarrow>
          (let audioResult = analyzeAudio buf 44100
           in st\<lparr>featureVector := (featureVector st)
                    \<lparr>etk := Some (Num (em_etk (energyTransition audioResult))),
                     pvss := Some (Num (pm_pvss (pitch audioResult))),
                     frd := Some (sf_frd (spectralFlatness audioResult))\<rparr>,
                 energyTransitionMetrics := Some (energyTransition audioResult),
                 pitchMetrics := Some (pitch audioResult),
                 spectralFlatnessMetrics := Some (spectralFlatness audioResult),
                 signals := signals st @ au_signals audioResult\<rparr>))"

definition level2_escalate :: "real \<Rightarrow> MediaRouteDecision \<Rightarrow> PipelineState \<Rightarrow> PipelineState" where
  "level2_escalate random route st =
     (let scoring = scoreFeatureVector (featureVector st) (signals st) (mediaType route);
          escalation = evaluateEscalation random level2_deep_spatial (rawScore scoring)
                         (fakeProbability scoring) (featureVector st) 0
      in if earlyExit escalation
         then st\<lparr>ps_earlyExit := True\<rparr>
         else if shouldEscalate escalation
         then st\<lparr>currentLevel := level3_temporal_crossmodal\<rparr>
         else st)"

definition level2 ::
  "Extractors \<Rightarrow> real \<Rightarrow> MediaRouteDecision \<Rightarrow> PipelineState \<Rightarrow> PipelineState" where
  "level2 ex random route st =
     level2_escalate random route
       (level2_audio route (level2_video ex route (level2_image ex route st)))"

definition level3_video :: "Extractors \<Rightarrow> MediaRouteDecision \<Rightarrow> PipelineState \<Rightarrow> PipelineState" where
  "level3_video ex route st =
     (case frames route of
        None \<Rightarrow> st
      | Some fs \<Rightarrow>
          (if mediaType route = mt_video \<and> length fs \<ge> 3
           then
             (let vidResult = analyzeVideo ex fs True True;
                  st1 = (case vr_opticalFlow vidResult of
                           None \<Rightarrow> st
                         | Some fl \<Rightarrow>
                             st\<lparr>featureVector := (featureVector st)
                                   \<lparr>fav := Some (Num (of_fav fl))\<rparr>,
                                opticalFlowMetrics := Some fl\<rparr>)
              in st1\<lparr>segments := vr_segments vidResult,
                     signals := merge_signals (signals st1) (vr_signals vidResult)\<rparr>)
           else st))"

definition cusum_signal :: "ChangePoint list \<Rightarrow> DetectionSignalOutput" where
  "cusum_signal cps =
     \<lparr>sig_id = ''cusum-changepoints'', sig_name = ''Partial Manipulation Detected'',
      category = temporal,
      confidence = Num (min 0.9 (0.5 + real (length cps) * 0.15)),
      severity = (if length cps > 2 then high_risk else harmful),
      metricValue = None\<rparr>"

definition level3_cusum :: "PipelineState \<Rightarrow> PipelineState" where
  "level3_cusum st =
     (if length (segments st) \<ge> 3
      then
        (let cps = detectChangePoints_default (segments st);
             st1 = st\<lparr>ps_changePoints := cps\<rparr>
         in if length cps > 0
            then st1\<lparr>segments := enrichSegmentsWithChangePoints_default (segments st1) cps,
                     signals := signals st1 @ [cusum_signal cps]\<rparr>
            else st1)
      else st)"

definition level3 :: "Extractors \<Rightarrow> MediaRouteDecision \<Rightarrow> PipelineState \<Rightarrow> PipelineState" where
  "level3 ex route st = level3_cusum (level3_video ex route st)"

text \<open>
  The analysis result, without the processing time (a clock reading) and the
  explanation text.
\<close>

record AMAFAnalysisResult =
  res_featureVector :: AMAFFeatureVector
  res_fakeProbability :: jsnum
  res_calibratedProbability :: jsnum
  res_riskLevel :: RiskLevel
  res_riskScore :: jsnum
  res_analysisLevel :: AnalysisLevel
  res_earlyExit :: bool
  res_frequencyMetrics :: "FrequencyMetrics option"
  res_textureMetrics :: "TextureMetrics option"
  res_temporalIdentityMetrics :: "TemporalIdentityMetrics option"
  res_opticalFlowMetrics :: "OpticalFlowMetrics option"
  res_energyTransitionMetrics :: "EnergyTransitionMetrics option"
  res_pitchMetrics :: "PitchMetrics option"
  res_spectralFlatnessMetrics :: "SpectralFlatnessMetrics option"
  res_segments :: "SegmentAuthenticity list"
  res_changePoints :: "ChangePoint list"
  res_signals :: "DetectionSignalOutput list"

text \<open>The state after the Level 1 block, after the Level 2 block, and after all three.\<close>

definition after_level1 :: "Extractors \<Rightarrow> real \<Rightarrow> MediaRouteDecision \<Rightarrow> PipelineState" where
  "after_level1 ex random1 route =
     (let st0 = initial_state (determineStartLevel (mediaType route) (fileSize route))
      in if currentLevel st0 = level1_lightweight
            \<or> currentLevel st0 = level2_deep_spatial
            \<or> currentLevel st0 = level3_temporal_crossmodal
         then level1 ex random1 route st0 else st0)"

definition after_level2 ::
  "Extractors \<Rightarrow> real \<Rightarrow> real \<Rightarrow> MediaRouteDecision \<Rightarrow> PipelineState" where
  "after_level2 ex random1 random2 route =
     (let st1 = after_level1 ex random1 route
      in if \<not> ps_earlyExit st1
            \<and> (currentLevel st1 = level2_deep_spatial
               \<or> currentLevel st1 = level3_temporal_crossmodal)
         then level2 ex random2 route st1 else st1)"

definition run_levels ::
  "Extractors \<Rightarrow> real \<Rightarrow> real \<Rightarrow> MediaRouteDecision \<Rightarrow> PipelineState" where
  "run_levels ex random1 random2 route =
     (let st2 = after_level2 ex random1 random2 route
      in if \<not> ps_earlyExit st2 \<and> currentLevel st2 = level3_temporal_crossmodal
         then level3 ex route st2 else st2)"

text \<open>
  \<open>runPipeline\<close>, from the routed media on. \<open>random1\<close> and \<open>random2\<close> are the values
  \<open>Math.random()\<close> returns in the escalation checks after Level 1 and Level 2.
\<close>

definition runPipeline ::
  "Extractors \<Rightarrow> real \<Rightarrow> real \<Rightarrow> MediaRouteDecision \<Rightarrow> AMAFAnalysisResult" where
  "runPipeline ex random1 random2 route =
     (let st = run_levels ex random1 random2 route;
          scoring = scoreFeatureVector (featureVector st) (signals st) (mediaType route)
      in \<lparr>res_featureVector = featureVector st,
          res_fakeProbability = fakeProbability scoring,
          res_calibratedProbability = fakeProbability scoring,
          res_riskLevel = sc_riskLevel scoring,
          res_riskScore = sc_riskScore scoring,
          res_analysisLevel = currentLevel st,
          res_earlyExit = ps_earlyExit st,
          res_frequencyMetrics = frequencyMetrics st,
          res_textureMetrics = textureMetrics st,
          res_temporalIdentityMetrics = temporalIdentityMetrics st,
          res_opticalFlowMetrics = opticalFlowMetrics st,
          res_energyTransitionMetrics = energyTransitionMetrics st,
          res_pitchMetrics = pitchMetrics st,
          res_spectralFlatnessMetrics = spectralFlatnessMetrics st,
          res_segments = segments st,
          res_changePoints = ps_changePoints st,
          res_signals = signals st\<rparr>)"


section \<open>Notions of the specification and example inputs\<close>

text \<open>
  The magnitude of a match vector \<open>(dx, dy)\<close>, the match vectors of all blocks of a frame
  pair (rows of blocks from top to bottom, each from left to right), and the average of
  a list of numbers (0 for the empty list).
\<close>

definition vector_magnitude :: "int \<times> int \<Rightarrow> real" where
  "vector_magnitude v = sqrt (real_of_int (fst v * fst v + snd v * snd v))"

definition block_vectors :: "ImageData \<Rightarrow> ImageData \<Rightarrow> nat \<Rightarrow> (int \<times> int) list" where
  "block_vectors prevFrame currFrame blockSize =
     concat (map (\<lambda>by. map (\<lambda>bx. snd (block_search (toGrayscale currFrame)
                                          (toGrayscale prevFrame) (width currFrame)
                                          (height currFrame) blockSize bx by))
                          (block_origins (width currFrame) blockSize))
                 (block_origins (height currFrame) blockSize))"

definition average :: "real list \<Rightarrow> real" where
  "average xs = (if xs = [] then 0 else sum_list xs / real (length xs))"

text \<open>The signal identifiers each analyser can emit.\<close>

definition image_ids :: "string set" where
  "image_ids = {''meta-exif-stripped'', ''meta-edited'', ''meta-recompression'',
                ''freq-hfer-low'', ''freq-svd-high'', ''tex-pdi-high''}"

definition video_ids :: "string set" where
  "video_ids = {''vid-freq-anomaly'', ''vid-tiis-high'', ''vid-fav-high'', ''vid-segment-flags''}"

definition audio_ids :: "string set" where
  "audio_ids = {''audio-etk-high'', ''audio-pvss-smooth'', ''audio-frd-anomaly''}"

text \<open>A signal list has pairwise distinct identifiers, all of them in \<open>S\<close>.\<close>

definition ids_ok :: "string set \<Rightarrow> DetectionSignalOutput list \<Rightarrow> bool" where
  "ids_ok S sigs = (distinct (map sig_id sigs) \<and> set (map sig_id sigs) \<subseteq> S)"

text \<open>Feature vectors: nothing measured, and all eight slots measured.\<close>

definition v_empty :: AMAFFeatureVector where
  "v_empty = \<lparr>hfer = None, svd = None, pdi = None, tiis = None, fav = None,
              etk = None, pvss = None, frd = None\<rparr>"

definition v_full :: AMAFFeatureVector where
  "v_full = \<lparr>hfer = Some (Num 0.1), svd = Some (Num 0.2), pdi = Some (Num 0.01),
             tiis = Some (Num 0.03), fav = Some (Num 0.1), etk = Some (Num 4),
             pvss = Some (Num 60), frd = Some (Num 0.2)\<rparr>"

text \<open>
  All eight slots measured, with the values the audio metrics take on an audio track
  shorter than one frame: \<open>etk = 0\<close>, \<open>pvss = 0\<close> and \<open>frd = NaN\<close>.
\<close>

definition v_nan :: AMAFFeatureVector where
  "v_nan = \<lparr>hfer = Some (Num 0.1), svd = Some (Num 0.2), pdi = Some (Num 0.01),
            tiis = Some (Num 0.03), fav = Some (Num 0.1), etk = Some (Num 0),
            pvss = Some (Num 0), frd = Some NaN\<rparr>"

text \<open>A segment with a given score and flag, and a change point at a given index.\<close>

definition seg :: "real \<Rightarrow> bool \<Rightarrow> SegmentAuthenticity" where
  "seg c f = \<lparr>segmentIndex = 0, startTime = 0, endTime = 5, authenticityScore = c, flagged = f\<rparr>"

definition cp_at :: "int \<Rightarrow> Direction \<Rightarrow> ChangePoint" where
  "cp_at i d = \<lparr>timestamp = 0, cp_segmentIndex = i, cusumValue = 0.6, direction = d\<rparr>"

text \<open>The grayscale arrays of \<open>frame_P\<close> and \<open>frame_Q\<close>.\<close>

definition gray_P :: "jsnum list" where
  "gray_P = (replicate 272 (Num 0))[1 := Num 255]"

definition gray_Q :: "jsnum list" where
  "gray_Q = (replicate 272 (Num 0))[0 := Num 255]"

text \<open>
  An image file of which only the raw bytes are available, with extractors that return
  fixed values.
\<close>

definition ex0 :: Extractors where
  "ex0 = \<lparr>computeFrequencyMetrics = (\<lambda>img. \<lparr>fm_hfer = Num 0.1, fm_svd = Num 0.6\<rparr>),
          computeTextureMetrics = (\<lambda>img. \<lparr>tm_pdi = Num 0.03, patchScores = [], gridSize = 8\<rparr>),
          scanImageMetadata = (\<lambda>buf. \<lparr>exifPresent = False, hasBeenEdited = True,
                                       compressionAnomalies = False, softwareUsed = None\<rparr>),
          computeTemporalIdentity = (\<lambda>fs. \<lparr>ti_tiis = Num 0, frameDrifts = []\<rparr>),
          computeSegmentAuthenticity = (\<lambda>fs. [])\<rparr>"

definition route0 :: MediaRouteDecision where
  "route0 = \<lparr>mediaType = mt_image, fileSize = 1000, frames = None, audioBuffer = None,
             imageData = None, rawBuffer = []\<rparr>"

text \<open>An audio file that decodes to three samples.\<close>

definition route_short_audio :: MediaRouteDecision where
  "route_short_audio = \<lparr>mediaType = mt_audio, fileSize = 12, frames = None,
             audioBuffer = Some [0.5, - 0.25, 0.125], imageData = None, rawBuffer = []\<rparr>"


text \<open>A video of four frames whose audio track decodes to three samples.\<close>

definition route_video_short_audio :: MediaRouteDecision where
  "route_video_short_audio = \<lparr>mediaType = mt_video, fileSize = 4096,
             frames = Some [frame_P, frame_P, frame_Q, frame_Q],
             audioBuffer = Some [0.5, - 0.25, 0.125], imageData = None, rawBuffer = []\<rparr>"


subsection \<open>The discrete Fourier transform\<close>

text \<open>
  The complex number stored at index \<open>p\<close> of a pair of arrays.
\<close>

definition cval :: "real list \<times> real list \<Rightarrow> nat \<Rightarrow> complex" where
  "cval a p = Complex (fst a ! p) (snd a ! p)"

text \<open>
  The discrete Fourier transform of a sequence of length \<open>n\<close>, which the contract of the
  Spectral Core names as the result of the 1D transform.
\<close>

definition dft :: "nat \<Rightarrow> (nat \<Rightarrow> complex) \<Rightarrow> nat \<Rightarrow> complex" where
  "dft n x p = (\<Sum>t<n. x t * cis (- 2 * pi / real n) ^ (t * p))"

text \<open>
  Modelled from the spec: the inverse of the 1D transform. The repository contains the
  forward transform \<open>fft1d\<close> only; the round-trip law composes it with the inverse
  discrete Fourier transform,
  \<open>x\<^sub>j = (1 / N) * (\<Sum>q<N. X\<^sub>q * exp (2 * pi * \<i> * j * q / N))\<close>,
  on arrays of real and imaginary parts.
\<close>

definition inverse_dft :: "real list \<times> real list \<Rightarrow> real list \<times> real list" where
  "inverse_dft a =
     (let n = length (fst a);
          y = (\<lambda>j. (\<Sum>q<n. cval a q * cis (2 * pi * real (j * q) / real n)) / of_nat n)
      in (map (\<lambda>j. Re (y j)) [0..<n], map (\<lambda>j. Im (y j)) [0..<n]))"

text \<open>
  The reversal of the lowest \<open>w\<close> bits of a number, and the array in the middle of the
  permutation loop: the indices below \<open>m\<close> have been visited.
\<close>

fun bitrev :: "nat \<Rightarrow> nat \<Rightarrow> nat" where
  "bitrev 0 v = 0"
| "bitrev (Suc w) v = (v mod 2) * 2 ^ w + bitrev w (v div 2)"

definition partly :: "nat \<Rightarrow> nat \<Rightarrow> 'a list \<Rightarrow> 'a list" where
  "partly w m xs =
     map (\<lambda>p. if p < m \<or> bitrev w p < m then xs ! bitrev w p else xs ! p) [0..<2 ^ w]"

text \<open>
  The butterflies seen on sequences of complex numbers: one butterfly, the states of
  the source loop as such sequences, one block, and the value a whole pass of half
  length \<open>h\<close> leaves at an index.
\<close>

definition abfly ::
  "nat \<Rightarrow> complex \<Rightarrow> nat \<Rightarrow> nat \<Rightarrow> (nat \<Rightarrow> complex) \<times> complex \<Rightarrow> (nat \<Rightarrow> complex) \<times> complex" where
  "abfly h w i k st =
     (case st of (f, cur) \<Rightarrow>
        (f(i + k + h := f (i + k) - cur * f (i + k + h),
           i + k := f (i + k) + cur * f (i + k + h)),
         cur * w))"

definition abs_st :: "real list \<times> real list \<times> real \<times> real \<Rightarrow> (nat \<Rightarrow> complex) \<times> complex" where
  "abs_st st = (case st of (re, im, curRe, curIm) \<Rightarrow> (cval (re, im), Complex curRe curIm))"

definition good_st :: "nat \<Rightarrow> real list \<times> real list \<times> real \<times> real \<Rightarrow> bool" where
  "good_st n st = (case st of (re, im, curRe, curIm) \<Rightarrow> length re = n \<and> length im = n)"

definition good :: "nat \<Rightarrow> real list \<times> real list \<Rightarrow> bool" where
  "good n a = (length (fst a) = n \<and> length (snd a) = n)"

definition ablock :: "nat \<Rightarrow> complex \<Rightarrow> nat \<Rightarrow> (nat \<Rightarrow> complex) \<Rightarrow> nat \<Rightarrow> complex" where
  "ablock h w i f = fst (fold (abfly h w i) [0..<h] (f, 1))"

definition pass_val :: "nat \<Rightarrow> complex \<Rightarrow> (nat \<Rightarrow> complex) \<Rightarrow> nat \<Rightarrow> complex" where
  "pass_val h w f p =
     (if p mod (2 * h) < h then f p + w ^ (p mod (2 * h)) * f (p + h)
      else f (p - h) - w ^ (p mod (2 * h) - h) * f p)"

text \<open>
  The root of unity of the pass of length \<open>2 ^ s\<close>, the transform of the subsequence
  of \<open>2 ^ s\<close> elements at stride \<open>2 ^ (k - s)\<close> starting at \<open>r\<close>, and the contents of the arrays
  after the passes up to length \<open>2 ^ s\<close>.
\<close>

definition om :: "nat \<Rightarrow> complex" where
  "om s = cis (- 2 * pi / 2 ^ s)"

definition subdft :: "nat \<Rightarrow> (nat \<Rightarrow> complex) \<Rightarrow> nat \<Rightarrow> nat \<Rightarrow> nat \<Rightarrow> complex" where
  "subdft k x s r q = (\<Sum>t<2 ^ s. x (r + t * 2 ^ (k - s)) * om s ^ (t * q))"

definition stage :: "nat \<Rightarrow> (nat \<Rightarrow> complex) \<Rightarrow> nat \<Rightarrow> nat \<Rightarrow> complex" where
  "stage k x s p = subdft k x s (bitrev (k - s) (p div 2 ^ s)) (p mod 2 ^ s)"


section \<open>Scoring engine: ensemble score and risk ladder\<close>

lemma weight_pos: "0 < weight (FEATURE_BASELINES k)"
  by (cases k) simp_all

lemma normalizeFeature_Num: "\<exists>a. normalizeFeature k (Num x) = Num a \<and> 0 \<le> a"
  by (simp add: normalizeFeature_def lift1_def Let_def)

lemma contribution_nonneg: "0 \<le> contribution v k"
  using weight_pos [of k]
  by (auto simp: contribution_def normalizeFeature_def lift1_def Let_def
      split: option.splits jsnum.splits if_splits)

lemma ensemble_step_numeric:
  assumes "slot v k \<noteq> Some NaN"
  shows "ensemble_step v k (Num a, t) =
    (if slot v k = None then (Num a, t)
     else (Num (a + contribution v k), t + weight (FEATURE_BASELINES k)))"
proof (cases "slot v k")
  case None
  then show ?thesis by (simp add: ensemble_step_def)
next
  case (Some val)
  with assms obtain x where val: "val = Num x" by (cases val) auto
  obtain b where b: "normalizeFeature k (Num x) = Num b"
    using normalizeFeature_Num by blast
  show ?thesis
    using Some val b
    by (simp add: ensemble_step_def contribution_def lift1_def lift2_def Let_def)
qed

lemma ensemble_fold_numeric:
  "list_all (\<lambda>k. slot v k \<noteq> Some NaN) ks \<Longrightarrow>
   fold (ensemble_step v) ks (Num a, t) =
     (Num (a + (\<Sum>k\<leftarrow>filter (\<lambda>k. slot v k \<noteq> None) ks. contribution v k)),
      t + (\<Sum>k\<leftarrow>filter (\<lambda>k. slot v k \<noteq> None) ks. weight (FEATURE_BASELINES k)))"
proof (induction ks arbitrary: a t)
  case Nil
  then show ?case by simp
next
  case (Cons k ks)
  then show ?case
    by (simp add: ensemble_step_numeric add.assoc)
qed

lemma ensemble_loop_numeric:
  "numeric v \<Longrightarrow> ensemble_loop v =
     (Num (\<Sum>k\<leftarrow>populated v. contribution v k),
      \<Sum>k\<leftarrow>populated v. weight (FEATURE_BASELINES k))"
  unfolding ensemble_loop_def numeric_def populated_def
  by (simp add: ensemble_fold_numeric)

lemma ensemble_fold_weight:
  "snd (fold (ensemble_step v) ks acc) =
     snd acc + (\<Sum>k\<leftarrow>filter (\<lambda>k. slot v k \<noteq> None) ks. weight (FEATURE_BASELINES k))"
proof (induction ks arbitrary: acc)
  case Nil
  then show ?case by simp
next
  case (Cons k ks)
  then show ?case
    by (cases "slot v k") (simp_all add: ensemble_step_def Let_def)
qed

lemma totalWeight_populated:
  "totalWeight v = (\<Sum>k\<leftarrow>populated v. weight (FEATURE_BASELINES k))"
  by (simp add: totalWeight_def ensemble_loop_def populated_def ensemble_fold_weight)

lemma sum_weights_pos: "ks \<noteq> [] \<Longrightarrow> 0 < (\<Sum>k\<leftarrow>ks. weight (FEATURE_BASELINES k))"
proof (induction ks)
  case Nil
  then show ?case by simp
next
  case (Cons k ks)
  have "0 \<le> (\<Sum>k\<leftarrow>ks. weight (FEATURE_BASELINES k))"
    by (rule sum_list_nonneg) (auto intro: less_imp_le weight_pos)
  with weight_pos [of k] show ?case by simp
qed

lemma score_numeric:
  assumes "numeric v"
  shows "computeEnsembleScore v =
    Num (if populated v = [] then 0
         else (\<Sum>k\<leftarrow>populated v. contribution v k) /
              (\<Sum>k\<leftarrow>populated v. weight (FEATURE_BASELINES k)))"
proof (cases "populated v = []")
  case True
  then show ?thesis
    using assms by (simp add: computeEnsembleScore_def ensemble_loop_numeric)
next
  case False
  then show ?thesis
    using assms sum_weights_pos [OF False]
    by (simp add: computeEnsembleScore_def ensemble_loop_numeric lift1_def)
qed

lemma populated_all: "(\<forall>k. slot v k \<noteq> None) \<Longrightarrow> populated v = feature_keys"
  by (simp add: populated_def)

lemma populated_none: "(\<forall>k. slot v k = None) \<Longrightarrow> populated v = []"
  by (simp add: populated_def)

lemma numeric_none: "(\<forall>k. slot v k = None) \<Longrightarrow> numeric v"
  by (simp add: numeric_def list_all_iff)

lemma ensemble_loop_frd_NaN:
  assumes "frd v = Some NaN"
  shows "fst (ensemble_loop v) = NaN"
proof -
  have "ensemble_loop v
      = ensemble_step v Frd
          (fold (ensemble_step v) [Hfer, Svd, Pdi, Tiis, Fav, Etk, Pvss] (Num 0, 0))"
    by (simp add: ensemble_loop_def feature_keys_def)
  then show ?thesis
    using assms
    by (simp add: ensemble_step_def normalizeFeature_def lift1_def lift2_def Let_def
        split: jsnum.splits)
qed

lemma score_NaN_slot:
  assumes "frd v = Some NaN"
  shows "computeEnsembleScore v = NaN"
proof -
  have "Frd \<in> set (populated v)"
    using assms by (simp add: populated_def feature_keys_def)
  then have "populated v \<noteq> []" by auto
  then have "0 < snd (ensemble_loop v)"
    using sum_weights_pos totalWeight_populated [of v] by (simp add: totalWeight_def)
  then show ?thesis
    using ensemble_loop_frd_NaN [OF assms]
    by (simp add: computeEnsembleScore_def Let_def lift1_def)
qed

text \<open>
  C1, as the claim states it, fails. In \<open>v_nan\<close> all eight slots are populated, the slot
  \<open>frd\<close> with \<open>NaN\<close>: the loop skips a slot only when it is \<open>null\<close>, so the total weight is
  the sum of all eight baseline weights, and the score is \<open>NaN\<close>, which is not a
  non-negative number. The pipeline builds such a vector for a video with a short audio
  track (\<open>video_short_audio_vector\<close> below).
\<close>

theorem C1_NaN_slot_counterexample:
  "populated v_nan = feature_keys
   \<and> totalWeight v_nan = 1
   \<and> computeEnsembleScore v_nan = NaN
   \<and> \<not> js_le (Num 0) (computeEnsembleScore v_nan)"
proof -
  have p: "populated v_nan = feature_keys"
    by (simp add: populated_def feature_keys_def v_nan_def)
  have w: "totalWeight v_nan = 1"
    unfolding totalWeight_populated p by (simp add: feature_keys_def)
  have s: "computeEnsembleScore v_nan = NaN"
    by (rule score_NaN_slot) (simp add: v_nan_def)
  show ?thesis
    using p w s by (simp add: js_le_def)
qed

text \<open>
  C1, amended. The total weight \<open>computeEnsembleScore\<close> divides by is the sum of the
  weights of the populated slots. For a feature vector whose populated slots hold
  numbers (none of them is \<open>NaN\<close>), the score is the sum of the contributions (anomaly
  score times weight) of the populated slots divided by that total weight, and 0 when no
  slot is populated: an absent slot adds to neither sum. With all 8 slots populated the
  total weight is the sum of all 8 baseline weights and, when the slots hold numbers,
  the score is a non-negative number. With no slot populated the score is 0 and the
  calibrated probability is \<open>1 / (1 + exp 1)\<close>, the Platt transform of 0.
\<close>

theorem C1_ensemble_score:
  "totalWeight v = (\<Sum>k\<leftarrow>populated v. weight (FEATURE_BASELINES k))
   \<and> (numeric v \<longrightarrow>
      computeEnsembleScore v =
        Num (if populated v = [] then 0
             else (\<Sum>k\<leftarrow>populated v. contribution v k) /
                  (\<Sum>k\<leftarrow>populated v. weight (FEATURE_BASELINES k))))
   \<and> ((\<forall>k. slot v k \<noteq> None) \<longrightarrow>
        totalWeight v = (\<Sum>k\<leftarrow>feature_keys. weight (FEATURE_BASELINES k))
        \<and> (numeric v \<longrightarrow> (\<exists>r. computeEnsembleScore v = Num r \<and> 0 \<le> r)))
   \<and> ((\<forall>k. slot v k = None) \<longrightarrow>
        computeEnsembleScore v = Num 0
        \<and> plattScale_default (computeEnsembleScore v) = Num (1 / (1 + exp 1))
        \<and> plattScale_default (computeEnsembleScore v) = plattScale_default (Num 0))"
proof (intro conjI impI)
  show "totalWeight v = (\<Sum>k\<leftarrow>populated v. weight (FEATURE_BASELINES k))"
    by (rule totalWeight_populated)
next
  assume "numeric v"
  then show "computeEnsembleScore v =
        Num (if populated v = [] then 0
             else (\<Sum>k\<leftarrow>populated v. contribution v k) /
                  (\<Sum>k\<leftarrow>populated v. weight (FEATURE_BASELINES k)))"
    by (rule score_numeric)
next
  assume "\<forall>k. slot v k \<noteq> None"
  then show "totalWeight v = (\<Sum>k\<leftarrow>feature_keys. weight (FEATURE_BASELINES k))"
    by (simp add: totalWeight_populated populated_all)
next
  assume all: "\<forall>k. slot v k \<noteq> None" and num: "numeric v"
  have "0 \<le> (\<Sum>k\<leftarrow>populated v. contribution v k)"
    by (rule sum_list_nonneg) (auto simp: contribution_nonneg)
  moreover have "0 < (\<Sum>k\<leftarrow>populated v. weight (FEATURE_BASELINES k))"
    using all by (intro sum_weights_pos) (simp add: populated_all feature_keys_def)
  ultimately show "\<exists>r. computeEnsembleScore v = Num r \<and> 0 \<le> r"
    using score_numeric [OF num] by simp
next
  assume none: "\<forall>k. slot v k = None"
  then show z: "computeEnsembleScore v = Num 0"
    using score_numeric [OF numeric_none [OF none]] by (simp add: populated_none)
  show "plattScale_default (computeEnsembleScore v) = Num (1 / (1 + exp 1))"
    by (simp add: z plattScale_default_def plattScale_def lift1_def)
  show "plattScale_default (computeEnsembleScore v) = plattScale_default (Num 0)"
    by (simp add: z)
qed

lemma slot_v_full: "slot v_full k \<noteq> None"
  by (cases k) (simp_all add: v_full_def)

lemma slot_v_empty: "slot v_empty k = None"
  by (cases k) (simp_all add: v_empty_def)

lemma numeric_v_full: "numeric v_full"
  by (simp add: numeric_def feature_keys_def v_full_def)

theorem C1_ensemble_score_witness:
  "numeric v_full
   \<and> populated v_full = feature_keys
   \<and> totalWeight v_full = 1
   \<and> (\<exists>r. computeEnsembleScore v_full = Num r \<and> 0 \<le> r)
   \<and> computeEnsembleScore v_empty = Num 0
   \<and> plattScale_default (computeEnsembleScore v_empty) = Num (1 / (1 + exp 1))"
proof -
  have full: "\<forall>k. slot v_full k \<noteq> None"
    using slot_v_full by blast
  have empty: "\<forall>k. slot v_empty k = None"
    using slot_v_empty by blast
  from C1_ensemble_score [of v_full] full numeric_v_full
  have w: "totalWeight v_full = (\<Sum>k\<leftarrow>feature_keys. weight (FEATURE_BASELINES k))"
    and r: "\<exists>r. computeEnsembleScore v_full = Num r \<and> 0 \<le> r"
    by blast+
  from C1_ensemble_score [of v_empty] empty
  have e: "computeEnsembleScore v_empty = Num 0"
    "plattScale_default (computeEnsembleScore v_empty) = Num (1 / (1 + exp 1))"
    by blast+
  have "totalWeight v_full = 1"
    unfolding w by (simp add: feature_keys_def)
  with r e numeric_v_full populated_all [OF full] show ?thesis
    by blast
qed

lemma riskLevel_Num:
  "riskLevel (classifyRisk (Num p)) =
     (if 0.8 \<le> p then high_risk else if 0.55 \<le> p then harmful
      else if 0.3 \<le> p then suspicious else low)"
  by (simp add: classifyRisk_def js_le_def)

text \<open>
  C2. For every probability \<open>p\<close>, \<open>classifyRisk\<close> follows the ladder: \<open>high_risk\<close> from
  0.8, \<open>harmful\<close> from 0.55 and below 0.8, \<open>suspicious\<close> from 0.3 and below 0.55, \<open>low\<close>
  below 0.3. The tier never decreases when \<open>p\<close> increases, each of the boundaries 0.3,
  0.55 and 0.8 belongs to the higher tier, and the risk score is \<open>100 * p\<close> rounded to
  the nearest integer (at most one half away from it).
\<close>

theorem C2_classifyRisk_ladder:
  "(0.8 \<le> p \<longrightarrow> riskLevel (classifyRisk (Num p)) = high_risk)
   \<and> (0.55 \<le> p \<and> p < 0.8 \<longrightarrow> riskLevel (classifyRisk (Num p)) = harmful)
   \<and> (0.3 \<le> p \<and> p < 0.55 \<longrightarrow> riskLevel (classifyRisk (Num p)) = suspicious)
   \<and> (p < 0.3 \<longrightarrow> riskLevel (classifyRisk (Num p)) = low)
   \<and> (p \<le> q \<longrightarrow>
        tier (riskLevel (classifyRisk (Num p))) \<le> tier (riskLevel (classifyRisk (Num q))))
   \<and> riskLevel (classifyRisk (Num 0.3)) = suspicious
   \<and> riskLevel (classifyRisk (Num 0.55)) = harmful
   \<and> riskLevel (classifyRisk (Num 0.8)) = high_risk
   \<and> riskScore (classifyRisk (Num p)) = Num (real_of_int (round (p * 100)))
   \<and> \<bar>real_of_int (round (p * 100)) - p * 100\<bar> \<le> 1 / 2"
proof -
  have "\<bar>real_of_int (round (p * 100)) - p * 100\<bar> \<le> 1 / 2"
    by (rule of_int_round_abs_le)
  then show ?thesis
    by (simp add: riskLevel_Num) (simp add: classifyRisk_def lift1_def math_round_def round_def)
qed

theorem C2_classifyRisk_ladder_witness:
  "riskLevel (classifyRisk (Num 0.9)) = high_risk
   \<and> riskLevel (classifyRisk (Num 0.6)) = harmful
   \<and> riskLevel (classifyRisk (Num 0.4)) = suspicious
   \<and> riskLevel (classifyRisk (Num 0.1)) = low
   \<and> tier (riskLevel (classifyRisk (Num 0.4))) \<le> tier (riskLevel (classifyRisk (Num 0.6)))
   \<and> riskScore (classifyRisk (Num 0.426)) = Num 43"
  using C2_classifyRisk_ladder [of "0.9" "0.9"] C2_classifyRisk_ladder [of "0.6" "0.6"]
    C2_classifyRisk_ladder [of "0.4" "0.6"] C2_classifyRisk_ladder [of "0.1" "0.1"]
    C2_classifyRisk_ladder [of "0.426" "0.426"]
  by (simp add: round_def)


section \<open>Change detector: constant sequences and the enrichment step\<close>

lemma reduce_sum_foldl: "foldl (\<lambda>a b. a + f b) a xs = a + sum_list (map f xs)"
  by (induction xs arbitrary: a) (simp_all add: add.assoc)

lemma reduce_sum_sum_list: "reduce_sum f xs = sum_list (map f xs)"
  by (simp add: reduce_sum_def reduce_sum_foldl)

lemma scores_mean_const:
  assumes "segs \<noteq> []" "\<forall>s\<in>set segs. authenticityScore s = c"
  shows "scores_mean segs = c"
proof -
  have "map authenticityScore segs = replicate (length segs) c"
    using assms(2) by (simp add: map_replicate_const [symmetric] cong: map_cong)
  then have "sum_list (map authenticityScore segs) = real (length segs) * c"
    by (simp add: sum_list_replicate)
  with assms(1) show ?thesis
    by (simp add: scores_mean_def reduce_sum_sum_list)
qed

lemma cusum_step_const:
  assumes "segs \<noteq> []" "\<forall>s\<in>set segs. authenticityScore s = c" "i < length segs"
    "0 \<le> allowance" "0 \<le> threshold"
  shows "cusum_step segs allowance threshold i cusum_init = cusum_init"
proof -
  have "segs ! i \<in> set segs" using assms(3) by simp
  then have "authenticityScore (segs ! i) = c" using assms(2) by blast
  then show ?thesis
    using assms scores_mean_const [OF assms(1,2)]
    by (simp add: cusum_step_def cusum_init_def Let_def)
qed

lemma cusum_run_const:
  assumes "segs \<noteq> []" "\<forall>s\<in>set segs. authenticityScore s = c"
    "0 \<le> allowance" "0 \<le> threshold"
  shows "n \<le> length segs \<Longrightarrow> cusum_run segs allowance threshold n = cusum_init"
proof (induction n)
  case 0
  then show ?case by (simp add: cusum_run_def)
next
  case (Suc n)
  then show ?case
    using cusum_step_const [OF assms(1,2) _ assms(3,4), of n]
    by (simp add: cusum_run_def)
qed

text \<open>
  C4. For a segment sequence of length at least 3 in which all authenticity scores are
  equal, \<open>detectChangePoints\<close> with the default allowance 0.1 and threshold 0.5 reports
  no change point, and both running CUSUM statistics are 0 after every number of
  iterations of the loop.
\<close>

theorem C4_constant_sequence:
  assumes "3 \<le> length segs" and "\<forall>s\<in>set segs. authenticityScore s = c"
  shows "detectChangePoints_default segs = []
    \<and> (\<forall>n\<le>length segs. cusumUpper (cusum_run segs 0.1 0.5 n) = 0
                       \<and> cusumLower (cusum_run segs 0.1 0.5 n) = 0)"
proof -
  from assms(1) have ne: "segs \<noteq> []" by auto
  have run: "cusum_run segs 0.1 0.5 n = cusum_init" if "n \<le> length segs" for n
    using cusum_run_const [OF ne assms(2) _ _ that, of "0.1" "0.5"] by simp
  have "changePoints (cusum_run segs 0.1 0.5 (length segs)) = []"
    using run [of "length segs"] by (simp add: cusum_init_def)
  moreover have "cusumUpper (cusum_run segs 0.1 0.5 n) = 0
      \<and> cusumLower (cusum_run segs 0.1 0.5 n) = 0" if "n \<le> length segs" for n
    using run [OF that] by (simp add: cusum_init_def)
  ultimately show ?thesis
    using assms(1)
    by (simp add: detectChangePoints_default_def detectChangePoints_def)
qed

theorem C4_constant_sequence_witness:
  "3 \<le> length [seg 0.7 False, seg 0.7 False, seg 0.7 False, seg 0.7 False]
   \<and> detectChangePoints_default [seg 0.7 False, seg 0.7 False, seg 0.7 False, seg 0.7 False] = []
   \<and> cusumUpper (cusum_run [seg 0.7 False, seg 0.7 False, seg 0.7 False, seg 0.7 False]
        0.1 0.5 2) = 0
   \<and> cusumLower (cusum_run [seg 0.7 False, seg 0.7 False, seg 0.7 False, seg 0.7 False]
        0.1 0.5 4) = 0"
proof -
  define segs where "segs = [seg 0.7 False, seg 0.7 False, seg 0.7 False, seg 0.7 False]"
  have h1: "3 \<le> length segs"
    by (simp add: segs_def)
  have h2: "\<forall>s\<in>set segs. authenticityScore s = 0.7"
    by (simp add: segs_def seg_def)
  from C4_constant_sequence [OF h1 h2]
  have none: "detectChangePoints_default segs = []"
    and zero: "\<And>n. n \<le> length segs \<Longrightarrow> cusumUpper (cusum_run segs 0.1 0.5 n) = 0
                                      \<and> cusumLower (cusum_run segs 0.1 0.5 n) = 0"
    by blast+
  have "cusumUpper (cusum_run segs 0.1 0.5 2) = 0"
    using zero [of 2] by (simp add: segs_def)
  moreover have "cusumLower (cusum_run segs 0.1 0.5 4) = 0"
    using zero [of 4] by (simp add: segs_def)
  ultimately show ?thesis
    using h1 none unfolding segs_def by blast
qed

lemma enrich_at_length: "length (enrich_at cp i xs) = length xs"
  by (simp add: enrich_at_def)

lemma flagged_update_same: "flagged s = b \<Longrightarrow> s\<lparr>flagged := b\<rparr> = s"
  by auto

lemma enrich_at_nth:
  assumes "0 \<le> i" "j < length xs"
  shows "enrich_at cp i xs ! j =
    (xs ! j)\<lparr>flagged := flagged (xs ! j) \<or> (direction cp = increase \<and> int j = i)\<rparr>"
proof (cases "int j = i")
  case True
  then have "nat i = j" by simp
  then show ?thesis
    using assms True by (auto simp: enrich_at_def flagged_update_same)
next
  case False
  then have "nat i \<noteq> j" using assms(1) by auto
  then show ?thesis
    using False by (simp add: enrich_at_def flagged_update_same)
qed

lemma enrich_fold_length: "length (fold (enrich_at cp) is xs) = length xs"
  by (induction "is" arbitrary: xs) (simp_all add: enrich_at_length)

lemma enrich_fold_nth:
  assumes "\<forall>i\<in>set is. 0 \<le> i" "j < length xs"
  shows "fold (enrich_at cp) is xs ! j =
    (xs ! j)\<lparr>flagged := flagged (xs ! j) \<or> (direction cp = increase \<and> int j \<in> set is)\<rparr>"
  using assms
proof (induction "is" arbitrary: xs)
  case Nil
  then show ?case by simp
next
  case (Cons i "is")
  then show ?case
    by (simp add: enrich_at_nth enrich_at_length conj_disj_distribL)
qed

lemma enrich_cp_length: "length (enrich_cp r cp xs) = length xs"
  by (simp add: enrich_cp_def Let_def enrich_fold_length)

lemma enrich_cp_nth:
  assumes "j < length xs"
  shows "enrich_cp r cp xs ! j =
    (xs ! j)\<lparr>flagged := flagged (xs ! j) \<or>
       (direction cp = increase \<and> \<bar>int j - cp_segmentIndex cp\<bar> \<le> r)\<rparr>"
proof -
  have "(int j \<in> set [max 0 (cp_segmentIndex cp - r) ..
                       min (int (length xs) - 1) (cp_segmentIndex cp + r)])
      = (\<bar>int j - cp_segmentIndex cp\<bar> \<le> r)"
    using assms by auto
  then show ?thesis
    using assms by (simp add: enrich_cp_def Let_def enrich_fold_nth)
qed

lemma enrich_all_length: "length (fold (enrich_cp r) cps xs) = length xs"
  by (induction cps arbitrary: xs) (simp_all add: enrich_cp_length)

lemma enrich_all_nth:
  assumes "j < length xs"
  shows "fold (enrich_cp r) cps xs ! j =
    (xs ! j)\<lparr>flagged := flagged (xs ! j) \<or>
       (\<exists>cp\<in>set cps. direction cp = increase \<and> \<bar>int j - cp_segmentIndex cp\<bar> \<le> r)\<rparr>"
  using assms
proof (induction cps arbitrary: xs)
  case Nil
  then show ?case by simp
next
  case (Cons cp cps)
  then show ?case
    by (simp add: enrich_cp_nth enrich_cp_length bex_disj_distrib disj_assoc)
qed

text \<open>
  C9. \<open>enrichSegmentsWithChangePoints\<close> returns a list of the same length in which every
  segment has the index, start time, end time and authenticity score of its input
  counterpart. A segment flagged in the input is flagged in the output, and a segment
  is flagged in the output exactly when it was flagged in the input or its position lies
  within the radius of the segment index of some change point with direction
  \<open>increase\<close>; so an unflagged segment becomes flagged exactly in the latter case.
\<close>

theorem C9_enrich_only_flags:
  "length (enrichSegmentsWithChangePoints segs cps r) = length segs
   \<and> (\<forall>i<length segs.
        segmentIndex (enrichSegmentsWithChangePoints segs cps r ! i) = segmentIndex (segs ! i)
      \<and> startTime (enrichSegmentsWithChangePoints segs cps r ! i) = startTime (segs ! i)
      \<and> endTime (enrichSegmentsWithChangePoints segs cps r ! i) = endTime (segs ! i)
      \<and> authenticityScore (enrichSegmentsWithChangePoints segs cps r ! i)
          = authenticityScore (segs ! i)
      \<and> (flagged (segs ! i) \<longrightarrow> flagged (enrichSegmentsWithChangePoints segs cps r ! i))
      \<and> (flagged (enrichSegmentsWithChangePoints segs cps r ! i) \<longleftrightarrow>
           flagged (segs ! i) \<or>
           (\<exists>cp\<in>set cps. direction cp = increase \<and> \<bar>int i - cp_segmentIndex cp\<bar> \<le> r)))"
  by (simp add: enrichSegmentsWithChangePoints_def enrich_all_length enrich_all_nth)

theorem C9_enrich_only_flags_witness:
  "length (enrichSegmentsWithChangePoints_default
             [seg 0.9 False, seg 0.8 True, seg 0.9 False, seg 0.2 False, seg 0.1 False]
             [cp_at 3 increase, cp_at 0 decrease]) = 5
   \<and> \<not> flagged (enrichSegmentsWithChangePoints_default
             [seg 0.9 False, seg 0.8 True, seg 0.9 False, seg 0.2 False, seg 0.1 False]
             [cp_at 3 increase, cp_at 0 decrease] ! 0)
   \<and> flagged (enrichSegmentsWithChangePoints_default
             [seg 0.9 False, seg 0.8 True, seg 0.9 False, seg 0.2 False, seg 0.1 False]
             [cp_at 3 increase, cp_at 0 decrease] ! 1)
   \<and> flagged (enrichSegmentsWithChangePoints_default
             [seg 0.9 False, seg 0.8 True, seg 0.9 False, seg 0.2 False, seg 0.1 False]
             [cp_at 3 increase, cp_at 0 decrease] ! 2)
   \<and> authenticityScore (enrichSegmentsWithChangePoints_default
             [seg 0.9 False, seg 0.8 True, seg 0.9 False, seg 0.2 False, seg 0.1 False]
             [cp_at 3 increase, cp_at 0 decrease] ! 2) = 0.9"
proof -
  define segs where
    "segs = [seg 0.9 False, seg 0.8 True, seg 0.9 False, seg 0.2 False, seg 0.1 False]"
  define cps where "cps = [cp_at 3 increase, cp_at 0 decrease]"
  define out where "out = enrichSegmentsWithChangePoints segs cps 1"
  note inst = C9_enrich_only_flags [of segs cps 1, folded out_def]
  have len: "length out = 5"
    using inst by (simp add: segs_def)
  have nth_out: "authenticityScore (out ! i) = authenticityScore (segs ! i)
      \<and> (flagged (out ! i) \<longleftrightarrow> flagged (segs ! i)
           \<or> (\<exists>cp\<in>set cps. direction cp = increase \<and> \<bar>int i - cp_segmentIndex cp\<bar> \<le> 1))"
    if "i < length segs" for i
    using inst that by blast
  have "\<not> flagged (out ! 0)"
    using nth_out [of 0] by (simp add: segs_def cps_def seg_def cp_at_def)
  moreover have "flagged (out ! 1)"
    using nth_out [of 1] by (simp add: segs_def cps_def seg_def cp_at_def)
  moreover have "flagged (out ! 2)"
    using nth_out [of 2] by (simp add: segs_def cps_def seg_def cp_at_def)
  moreover have "authenticityScore (out ! 2) = 0.9"
    using nth_out [of 2] by (simp add: segs_def seg_def)
  ultimately show ?thesis
    using len
    unfolding out_def segs_def cps_def enrichSegmentsWithChangePoints_default_def
    by blast
qed


section \<open>Confidence manager: early exit\<close>

text \<open>
  C5. When the probability given to \<open>evaluateEscalation\<close> is above 0.95 or below 0.05
  (0.97 in particular) and the stability counter is at least 3, the decision has
  \<open>shouldEscalate = false\<close> and \<open>earlyExit = true\<close>, whatever the current level, the raw
  score, the feature vector and the random draw.
\<close>

theorem C5_early_exit:
  "((0.95 < p \<or> p < 0.05) \<and> 3 \<le> n \<longrightarrow>
      shouldEscalate (evaluateEscalation rnd lvl raw (Num p) v n) = False
      \<and> earlyExit (evaluateEscalation rnd lvl raw (Num p) v n) = True)
   \<and> (3 \<le> n \<longrightarrow>
      shouldEscalate (evaluateEscalation rnd lvl raw (Num 0.97) v n) = False
      \<and> earlyExit (evaluateEscalation rnd lvl raw (Num 0.97) v n) = True)"
  by (simp add: evaluateEscalation_def js_lt_def)

theorem C5_early_exit_witness:
  "shouldEscalate (evaluateEscalation 0.1 level1_lightweight (Num 2) (Num 0.97) v_full 3) = False
   \<and> earlyExit (evaluateEscalation 0.1 level1_lightweight (Num 2) (Num 0.97) v_full 3) = True
   \<and> shouldEscalate (evaluateEscalation 0.1 level2_deep_spatial (Num 0) (Num 0.01) v_empty 5)
       = False
   \<and> earlyExit (evaluateEscalation 0.1 level2_deep_spatial (Num 0) (Num 0.01) v_empty 5) = True"
  using C5_early_exit [of "0.97" 3 "0.1" level1_lightweight "Num 2" v_full]
    C5_early_exit [of "0.01" 5 "0.1" level2_deep_spatial "Num 0" v_empty]
  by simp


section \<open>Optical flow: the flow-acceleration variance\<close>

lemma accelerations_abs_difference: "accelerations ms = map abs (first_difference ms)"
proof (rule nth_equalityI)
  show "length (accelerations ms) = length (map abs (first_difference ms))"
    by (simp add: accelerations_def first_difference_def)
next
  fix i assume "i < length (accelerations ms)"
  then have i: "i < length ms - 1" by (simp add: accelerations_def)
  then have "tl ms ! i = ms ! Suc i" by (simp add: nth_tl)
  with i show "accelerations ms ! i = map abs (first_difference ms) ! i"
    by (simp add: accelerations_def first_difference_def)
qed

lemma flow_inner_fold:
  "fold (\<lambda>bx acc. (case g bx of (bestDist, bestDx, bestDy) \<Rightarrow>
           (fst acc + sqrt (real_of_int (bestDx * bestDx + bestDy * bestDy)), snd acc + (1::nat))))
      xs (a, n)
   = (a + sum_list (map (\<lambda>bx. vector_magnitude (snd (g bx))) xs), n + length xs)"
proof (induction xs arbitrary: a n)
  case Nil
  then show ?case by simp
next
  case (Cons x xs)
  then show ?case
    by (cases "g x") (simp add: vector_magnitude_def add.assoc)
qed

lemma flow_outer_fold:
  "fold (\<lambda>by acc.
      fold (\<lambda>bx acc. (case g bx by of (bestDist, bestDx, bestDy) \<Rightarrow>
           (fst acc + sqrt (real_of_int (bestDx * bestDx + bestDy * bestDy)), snd acc + (1::nat))))
        xs acc) ys (a, n)
   = (a + sum_list (map vector_magnitude (concat (map (\<lambda>by. map (\<lambda>bx. snd (g bx by)) xs) ys))),
      n + length (concat (map (\<lambda>by. map (\<lambda>bx. snd (g bx by)) xs) ys)))"
proof (induction ys arbitrary: a n)
  case Nil
  then show ?case by simp
next
  case (Cons y ys)
  have "fold (\<lambda>bx acc. (case g bx y of (bestDist, bestDx, bestDy) \<Rightarrow>
           (fst acc + sqrt (real_of_int (bestDx * bestDx + bestDy * bestDy)), snd acc + (1::nat))))
        xs (a, n)
      = (a + sum_list (map (\<lambda>bx. vector_magnitude (snd (g bx y))) xs), n + length xs)"
    by (rule flow_inner_fold [of "\<lambda>bx. g bx y"])
  then show ?case
    using Cons.IH by (simp add: o_def add.assoc)
qed

lemma pair_flow_average:
  "pair_flow prevFrame currFrame blockSize
     = average (map vector_magnitude (block_vectors prevFrame currFrame blockSize))"
proof -
  define vs where "vs = block_vectors prevFrame currFrame blockSize"
  have f: "fold (\<lambda>by acc.
      fold (\<lambda>bx acc.
          (case block_search (toGrayscale currFrame) (toGrayscale prevFrame)
                  (width currFrame) (height currFrame) blockSize bx by of
             (bestDist, bestDx, bestDy) \<Rightarrow>
               (fst acc + sqrt (real_of_int (bestDx * bestDx + bestDy * bestDy)),
                snd acc + (1::nat))))
        (block_origins (width currFrame) blockSize) acc)
      (block_origins (height currFrame) blockSize) (0, 0)
    = (0 + sum_list (map vector_magnitude vs), 0 + length vs)"
    unfolding vs_def block_vectors_def
    by (rule flow_outer_fold
        [of "\<lambda>bx by. block_search (toGrayscale currFrame) (toGrayscale prevFrame)
                  (width currFrame) (height currFrame) blockSize bx by"])
  show ?thesis
    unfolding pair_flow_def Let_def f vs_def [symmetric] average_def
    by (cases vs) simp_all
qed

text \<open>The optical flow of the four example frames, step by step.\<close>

lemma toGrayscale_P: "toGrayscale frame_P = gray_P"
  unfolding gray_P_def
proof (rule nth_equalityI)
  show "length (toGrayscale frame_P) = length ((replicate 272 (Num 0))[1 := Num 255])"
    by (simp add: toGrayscale_def frame_P_def)
next
  fix i assume "i < length (toGrayscale frame_P)"
  then have i: "i < 272" by (simp add: toGrayscale_def frame_P_def)
  then show "toGrayscale frame_P ! i = (replicate 272 (Num 0))[1 := Num 255] ! i"
    by (cases "i = 1")
       (auto simp: toGrayscale_def frame_P_def byte_at_def lift1_def lift2_def Let_def
          nth_list_update)
qed

lemma toGrayscale_Q: "toGrayscale frame_Q = gray_Q"
  unfolding gray_Q_def
proof (rule nth_equalityI)
  show "length (toGrayscale frame_Q) = length ((replicate 272 (Num 0))[0 := Num 255])"
    by (simp add: toGrayscale_def frame_Q_def)
next
  fix i assume "i < length (toGrayscale frame_Q)"
  then have i: "i < 272" by (simp add: toGrayscale_def frame_Q_def)
  then show "toGrayscale frame_Q ! i = (replicate 272 (Num 0))[0 := Num 255] ! i"
    by (cases "i = 0")
       (auto simp: toGrayscale_def frame_Q_def byte_at_def lift1_def lift2_def Let_def
          nth_list_update)
qed

lemma num_at_gray_P:
  "num_at gray_P i = (if i = 1 then Num 255 else if i < 272 then Num 0 else NaN)"
  by (simp add: num_at_def gray_P_def nth_list_update)

lemma num_at_gray_Q:
  "num_at gray_Q i = (if i = 0 then Num 255 else if i < 272 then Num 0 else NaN)"
  by (simp add: num_at_def gray_Q_def nth_list_update)

lemma upt_0_16: "[0..<16] = [0, 1, 2, 3, 4, 5, 6, 7, 8, 9, 10, 11, 12, 13, 14, 15::nat]"
  by code_simp

lemma upto_search_range: "[- 4..4] = [- 4, - 3, - 2, - 1, 0, 1, 2, 3, 4::int]"
  by code_simp

lemmas sad_simps = block_sad_def lift1_def lift2_def num_at_gray_P num_at_gray_Q upt_0_16

lemma sad_PP:
  "block_sad gray_P gray_P 17 16 0 0 0 0 = Num 0"
  "block_sad gray_P gray_P 17 16 0 0 (Suc 0) 0 = Num 510"
  by (simp_all add: sad_simps)

lemma sad_QP:
  "block_sad gray_Q gray_P 17 16 0 0 0 0 = Num 510"
  "block_sad gray_Q gray_P 17 16 0 0 (Suc 0) 0 = Num 0"
  by (simp_all add: sad_simps)

lemma sad_QQ:
  "block_sad gray_Q gray_Q 17 16 0 0 0 0 = Num 0"
  "block_sad gray_Q gray_Q 17 16 0 0 (Suc 0) 0 = Num 255"
  by (simp_all add: sad_simps)

lemma search_PP: "block_search gray_P gray_P 17 16 16 0 0 = (Some 0, 0, 0)"
  unfolding block_search_def searchRange_def upto_search_range
  by (simp add: search_step_def Let_def sad_PP)

lemma search_QP: "block_search gray_Q gray_P 17 16 16 0 0 = (Some 0, 1, 0)"
  unfolding block_search_def searchRange_def upto_search_range
  by (simp add: search_step_def Let_def sad_QP)

lemma search_QQ: "block_search gray_Q gray_Q 17 16 16 0 0 = (Some 0, 0, 0)"
  unfolding block_search_def searchRange_def upto_search_range
  by (simp add: search_step_def Let_def sad_QQ)

lemma example_origins: "block_origins 17 16 = [0]" "block_origins 16 16 = [0]"
  by (simp_all add: block_origins_def)

lemma example_dims:
  "width frame_P = 17" "height frame_P = 16" "width frame_Q = 17" "height frame_Q = 16"
  by (simp_all add: frame_P_def frame_Q_def)

lemma flow_PP: "pair_flow frame_P frame_P 16 = 0"
  by (simp add: pair_flow_def toGrayscale_P example_dims example_origins search_PP)

lemma flow_PQ: "pair_flow frame_P frame_Q 16 = 1"
  by (simp add: pair_flow_def toGrayscale_P toGrayscale_Q example_dims example_origins search_QP)

lemma flow_QQ: "pair_flow frame_Q frame_Q 16 = 0"
  by (simp add: pair_flow_def toGrayscale_Q example_dims example_origins search_QQ)

lemma flow_example:
  "computeOpticalFlow [frame_P, frame_P, frame_Q, frame_Q] 16 =
     \<lparr>of_fav = 0, flowMagnitudes = [0, 1, 0]\<rparr>"
proof -
  have r: "[1..<4] = [1, 2, 3::nat]" by code_simp
  have r2: "[1..<3] = [1, 2::nat]" by code_simp
  show ?thesis
    by (simp add: computeOpticalFlow_def r r2 flow_PP flow_PQ flow_QQ accelerations_def
        reduce_sum_def Let_def)
qed

text \<open>
  C6, as the claim states it, fails: for the four example frames the flow magnitudes
  are 0, 1, 0, their first difference is 1, -1 with variance 1, and the metric
  \<open>computeOpticalFlow\<close> returns is 0.
\<close>

theorem C6_signed_difference_counterexample:
  "of_fav (computeOpticalFlow [frame_P, frame_P, frame_Q, frame_Q] 16)
     \<noteq> variance (first_difference
          (flowMagnitudes (computeOpticalFlow [frame_P, frame_P, frame_Q, frame_Q] 16)))"
  by (simp add: flow_example variance_def first_difference_def)

text \<open>
  C6, amended. For every frame sequence with at least 3 frames (and a positive block
  size), each per-transition flow magnitude is the average match-vector magnitude over
  the blocks of that frame pair, and the flow-acceleration variance is the variance of
  the absolute values of the first difference of the flow magnitudes.
\<close>

theorem C6_fav_absolute_difference:
  assumes "3 \<le> length fs" and "0 < blockSize"
  shows "flowMagnitudes (computeOpticalFlow fs blockSize)
         = map (\<lambda>f. average (map vector_magnitude
                                (block_vectors (fs ! (f - 1)) (fs ! f) blockSize)))
             [1..<length fs]
     \<and> of_fav (computeOpticalFlow fs blockSize)
         = variance (map abs (first_difference
             (flowMagnitudes (computeOpticalFlow fs blockSize))))"
proof -
  define ms where "ms = map (\<lambda>f. pair_flow (fs ! (f - 1)) (fs ! f) blockSize)
                    [1..<length fs]"
  have len: "length (accelerations ms) = length fs - 2"
    by (simp add: accelerations_def ms_def)
  with assms(1) have ne: "length (accelerations ms) \<noteq> 0" by simp
  have mags: "flowMagnitudes (computeOpticalFlow fs blockSize) = ms"
    unfolding computeOpticalFlow_def Let_def ms_def [symmetric]
    using assms(1) ne by simp
  have fv: "of_fav (computeOpticalFlow fs blockSize) = variance (accelerations ms)"
    unfolding computeOpticalFlow_def Let_def ms_def [symmetric]
    using assms(1) ne by (simp add: variance_def reduce_sum_sum_list)
  show ?thesis
    unfolding mags fv accelerations_abs_difference by (simp add: ms_def pair_flow_average)
qed

theorem C6_fav_absolute_difference_witness:
  "3 \<le> length [frame_P, frame_P, frame_Q, frame_Q] \<and> (0::nat) < 16
   \<and> flowMagnitudes (computeOpticalFlow [frame_P, frame_P, frame_Q, frame_Q] 16) = [0, 1, 0]
   \<and> variance (map abs (first_difference [0, 1, 0])) = 0
   \<and> of_fav (computeOpticalFlow [frame_P, frame_P, frame_Q, frame_Q] 16)
       = variance (map abs (first_difference [0, 1, 0]))"
proof -
  have h1: "3 \<le> length [frame_P, frame_P, frame_Q, frame_Q]" by simp
  have h2: "(0::nat) < 16" by simp
  from C6_fav_absolute_difference [OF h1 h2]
  have "of_fav (computeOpticalFlow [frame_P, frame_P, frame_Q, frame_Q] 16)
      = variance (map abs (first_difference
          (flowMagnitudes (computeOpticalFlow [frame_P, frame_P, frame_Q, frame_Q] 16))))"
    by blast
  then have "of_fav (computeOpticalFlow [frame_P, frame_P, frame_Q, frame_Q] 16)
      = variance (map abs (first_difference [0, 1, 0]))"
    by (simp add: flow_example)
  moreover have "variance (map abs (first_difference [0, 1, 0])) = 0"
    by (simp add: variance_def first_difference_def)
  ultimately show ?thesis
    by (simp add: flow_example)
qed



section \<open>Pipeline: the early-exit flag and the signal identifiers\<close>

lemma no_early_exit: "earlyExit (evaluateEscalation rnd lvl raw p v 0) = False"
  by (simp add: evaluateEscalation_def Let_def)

lemma level1_earlyExit: "ps_earlyExit (level1 ex rnd route st) = ps_earlyExit st"
  by (simp add: level1_def level1_escalate_def level1_audio_def level1_video_def level1_image_def
      store_image_l1_def no_early_exit Let_def split: option.splits)

lemma level2_earlyExit: "ps_earlyExit (level2 ex rnd route st) = ps_earlyExit st"
  by (simp add: level2_def level2_escalate_def level2_audio_def level2_video_def level2_image_def
      no_early_exit Let_def split: option.splits)

lemma level3_earlyExit: "ps_earlyExit (level3 ex route st) = ps_earlyExit st"
  by (simp add: level3_def level3_cusum_def level3_video_def Let_def split: option.splits)

lemma run_levels_earlyExit: "ps_earlyExit (run_levels ex r1 r2 route) = False"
  by (simp add: run_levels_def after_level2_def after_level1_def Let_def level1_earlyExit
      level2_earlyExit level3_earlyExit initial_state_def)

text \<open>
  C10. The result of \<open>runPipeline\<close> has \<open>earlyExit = false\<close> for every input, every
  value of the extractors and every random draw: with the stability counter 0, which
  both escalation checks of the pipeline pass by default, \<open>evaluateEscalation\<close> never
  decides an early exit.
\<close>

theorem C10_pipeline_never_exits_early:
  "res_earlyExit (runPipeline ex random1 random2 route) = False
   \<and> earlyExit (evaluateEscalation rnd lvl raw p v 0) = False"
  by (simp add: runPipeline_def Let_def run_levels_earlyExit no_early_exit)

lemmas run0_simps = runPipeline_def run_levels_def after_level2_def after_level1_def Let_def
  route0_def determineStartLevel_def
  initial_state_def level1_def level1_image_def level1_video_def level1_audio_def
  level1_escalate_def level2_def level2_image_def level2_video_def level2_audio_def
  level2_escalate_def level3_def level3_video_def level3_cusum_def
  analyzeImageFromBuffer_def store_image_l1_def ex0_def metadata_signals_def
  evaluateEscalation_def

lemma run0_signals:
  "map sig_id (res_signals (runPipeline ex0 0.1 0.1 route0))
     = [''meta-exif-stripped'', ''meta-edited'']"
  by (simp add: run0_simps)

lemma run0_level:
  "res_analysisLevel (runPipeline ex0 0.1 0.1 route0) = level3_temporal_crossmodal"
  by (simp add: run0_simps)

theorem C10_pipeline_never_exits_early_witness:
  "res_analysisLevel (runPipeline ex0 0.1 0.1 route0) = level3_temporal_crossmodal
   \<and> res_earlyExit (runPipeline ex0 0.1 0.1 route0) = False
   \<and> earlyExit (evaluateEscalation 0.1 level2_deep_spatial (Num 3) (Num 0.99) v_full 0) = False"
  using C10_pipeline_never_exits_early
    [of ex0 "0.1" "0.1" route0 "0.1" level2_deep_spatial "Num 3" "Num 0.99" v_full]
    run0_level
  by simp

lemma ids_ok_mono: "ids_ok S sigs \<Longrightarrow> S \<subseteq> T \<Longrightarrow> ids_ok T sigs"
  by (auto simp: ids_ok_def)

lemma ids_ok_subset: "ids_ok S sigs \<Longrightarrow> set (map sig_id sigs) \<subseteq> S"
  by (simp add: ids_ok_def)

lemma ids_ok_appendI:
  "ids_ok S xs \<Longrightarrow> ids_ok T ys \<Longrightarrow> S \<inter> T = {} \<Longrightarrow> ids_ok (S \<union> T) (xs @ ys)"
  by (auto simp: ids_ok_def)

text \<open>
  The merge loop, from a running list \<open>acc\<close> with distinct identifiers and its identifier
  set: the result extends \<open>acc\<close> by signals of \<open>new\<close> whose identifiers were not present,
  and its identifiers are distinct.
\<close>

lemma merge_fold:
  "fold (\<lambda>sg (acc, existingIds).
            if sig_id sg \<notin> existingIds
            then (acc @ [sg], insert (sig_id sg) existingIds)
            else (acc, existingIds)) new (acc, set (map sig_id acc)) = (acc', E)
   \<Longrightarrow> distinct (map sig_id acc)
   \<Longrightarrow> distinct (map sig_id acc') \<and> E = set (map sig_id acc')
       \<and> (\<exists>added. acc' = acc @ added \<and> set added \<subseteq> set new
                  \<and> (\<forall>sg\<in>set added. sig_id sg \<notin> set (map sig_id acc)))"
proof (induction new arbitrary: acc)
  case Nil
  then show ?case by auto
next
  case (Cons sg new)
  show ?case
  proof (cases "sig_id sg \<in> set (map sig_id acc)")
    case True
    with Cons.prems have
      "fold (\<lambda>sg (acc, existingIds).
            if sig_id sg \<notin> existingIds
            then (acc @ [sg], insert (sig_id sg) existingIds)
            else (acc, existingIds)) new (acc, set (map sig_id acc)) = (acc', E)"
      by simp
    from Cons.IH [OF this Cons.prems(2)] show ?thesis by auto
  next
    case False
    with Cons.prems have
      "fold (\<lambda>sg (acc, existingIds).
            if sig_id sg \<notin> existingIds
            then (acc @ [sg], insert (sig_id sg) existingIds)
            else (acc, existingIds)) new (acc @ [sg], set (map sig_id (acc @ [sg]))) = (acc', E)"
      by simp
    moreover have "distinct (map sig_id (acc @ [sg]))"
      using False Cons.prems(2) by simp
    ultimately have ih: "distinct (map sig_id acc') \<and> E = set (map sig_id acc')
       \<and> (\<exists>added. acc' = (acc @ [sg]) @ added \<and> set added \<subseteq> set new
                  \<and> (\<forall>s\<in>set added. sig_id s \<notin> set (map sig_id (acc @ [sg]))))"
      by (rule Cons.IH)
    then obtain added where added: "acc' = (acc @ [sg]) @ added" "set added \<subseteq> set new"
        "\<forall>s\<in>set added. sig_id s \<notin> set (map sig_id (acc @ [sg]))"
      by blast
    have "acc' = acc @ (sg # added) \<and> set (sg # added) \<subseteq> set (sg # new)
        \<and> (\<forall>s\<in>set (sg # added). sig_id s \<notin> set (map sig_id acc))"
      using added False by auto
    then show ?thesis using ih by blast
  qed
qed

lemma merge_signals_extends:
  assumes "distinct (map sig_id sigs)"
  shows "distinct (map sig_id (merge_signals sigs new))
     \<and> (\<exists>added. merge_signals sigs new = sigs @ added \<and> set added \<subseteq> set new
                \<and> (\<forall>sg\<in>set added. sig_id sg \<notin> set (map sig_id sigs)))"
proof -
  obtain acc' E where f:
    "fold (\<lambda>sg (acc, existingIds).
            if sig_id sg \<notin> existingIds
            then (acc @ [sg], insert (sig_id sg) existingIds)
            else (acc, existingIds)) new (sigs, set (map sig_id sigs)) = (acc', E)"
    by (meson surj_pair)
  have m: "merge_signals sigs new = acc'"
    unfolding merge_signals_def f by simp
  from merge_fold [OF f assms] show ?thesis
    unfolding m by blast
qed

lemma ids_ok_merge:
  assumes "ids_ok S sigs" "set (map sig_id new) \<subseteq> T"
  shows "ids_ok (S \<union> T) (merge_signals sigs new)"
proof -
  have sigs: "distinct (map sig_id sigs)" "set (map sig_id sigs) \<subseteq> S"
    using assms(1) by (simp_all add: ids_ok_def)
  from merge_signals_extends [OF sigs(1), of new]
  obtain added where d: "distinct (map sig_id (merge_signals sigs new))"
    and a: "merge_signals sigs new = sigs @ added" "set added \<subseteq> set new"
    by blast
  from a(2) have "sig_id ` set added \<subseteq> sig_id ` set new"
    by (rule image_mono)
  moreover from assms(2) have "sig_id ` set new \<subseteq> T"
    by simp
  moreover from sigs(2) have "sig_id ` set sigs \<subseteq> S"
    by simp
  ultimately have "sig_id ` set sigs \<union> sig_id ` set added \<subseteq> S \<union> T"
    by blast
  then have "set (map sig_id (merge_signals sigs new)) \<subseteq> S \<union> T"
    unfolding a(1) by (simp add: image_Un)
  with d show ?thesis
    by (simp add: ids_ok_def)
qed



lemma metadata_ok:
  "ids_ok {''meta-exif-stripped'', ''meta-edited'', ''meta-recompression''} (metadata_signals m)"
  by (simp add: ids_ok_def metadata_signals_def)

lemma hfer_low_ok: "ids_ok {''freq-hfer-low''} (hfer_low_signal f)"
  by (auto simp: ids_ok_def hfer_low_signal_def)

lemma svd_high_ok: "ids_ok {''freq-svd-high''} (svd_high_signal f)"
  by (auto simp: ids_ok_def svd_high_signal_def)

lemma pdi_high_ok: "ids_ok {''tex-pdi-high''} (pdi_high_signal t)"
  by (auto simp: ids_ok_def pdi_high_signal_def split: option.splits)

lemma image_signals_ok: "ids_ok image_ids (ir_signals (analyzeImage ex img buf t))"
proof -
  have "ids_ok ({''meta-exif-stripped'', ''meta-edited'', ''meta-recompression''}
           \<union> ({''freq-hfer-low''} \<union> ({''freq-svd-high''} \<union> {''tex-pdi-high''})))
         (metadata_signals (scanImageMetadata ex buf)
          @ hfer_low_signal (computeFrequencyMetrics ex img)
          @ svd_high_signal (computeFrequencyMetrics ex img)
          @ pdi_high_signal (if t then Some (computeTextureMetrics ex img) else None))"
    by (intro ids_ok_appendI metadata_ok hfer_low_ok svd_high_ok pdi_high_ok) simp_all
  then show ?thesis
    by (simp add: analyzeImage_def Let_def image_ids_def insert_commute Un_commute)
qed

lemma image_buffer_signals_ok:
  "ids_ok image_ids (ir_signals (analyzeImageFromBuffer ex buf None))"
proof -
  have "ids_ok image_ids (metadata_signals (scanImageMetadata ex buf))"
    by (rule ids_ok_mono [OF metadata_ok]) (simp add: image_ids_def)
  then show ?thesis
    by (simp add: analyzeImageFromBuffer_def Let_def)
qed

lemma vid_freq_ok: "ids_ok {''vid-freq-anomaly''} (vid_freq_signal f)"
  by (auto simp: ids_ok_def vid_freq_signal_def split: option.splits)

lemma vid_tiis_ok: "ids_ok {''vid-tiis-high''} (vid_tiis_signal t)"
  by (auto simp: ids_ok_def vid_tiis_signal_def)

lemma vid_fav_ok: "ids_ok {''vid-fav-high''} (vid_fav_signal fl)"
  by (auto simp: ids_ok_def vid_fav_signal_def split: option.splits)

lemma vid_segment_ok: "ids_ok {''vid-segment-flags''} (vid_segment_signal segs)"
  by (auto simp: ids_ok_def vid_segment_signal_def Let_def)

lemma video_signals_ok: "ids_ok video_ids (vr_signals (analyzeVideo ex fs t f))"
proof -
  have "ids_ok ({''vid-freq-anomaly''} \<union> ({''vid-tiis-high''}
           \<union> ({''vid-fav-high''} \<union> {''vid-segment-flags''})))
         (vid_freq_signal a @ vid_tiis_signal b @ vid_fav_signal c @ vid_segment_signal d)"
    for a b c d
    by (intro ids_ok_appendI vid_freq_ok vid_tiis_ok vid_fav_ok vid_segment_ok) simp_all
  then show ?thesis
    by (simp add: analyzeVideo_def Let_def video_ids_def insert_commute Un_commute)
qed

lemma etk_ok: "ids_ok {''audio-etk-high''} (etk_signal e)"
  by (auto simp: ids_ok_def etk_signal_def)

lemma pvss_ok: "ids_ok {''audio-pvss-smooth''} (pvss_signal p)"
  by (auto simp: ids_ok_def pvss_signal_def)

lemma frd_ok: "ids_ok {''audio-frd-anomaly''} (frd_signal s)"
  by (auto simp: ids_ok_def frd_signal_def)

lemma audio_signals_ok: "ids_ok audio_ids (au_signals (analyzeAudio buf sr))"
proof -
  have "ids_ok ({''audio-etk-high''} \<union> ({''audio-pvss-smooth''} \<union> {''audio-frd-anomaly''}))
         (etk_signal a @ pvss_signal b @ frd_signal c)" for a b c
    by (intro ids_ok_appendI etk_ok pvss_ok frd_ok) simp_all
  then show ?thesis
    by (simp add: analyzeAudio_def Let_def audio_ids_def insert_commute Un_commute)
qed

lemma ids_disjoint:
  "image_ids \<inter> video_ids = {}" "(image_ids \<union> video_ids) \<inter> audio_ids = {}"
  "''cusum-changepoints'' \<notin> image_ids \<union> video_ids \<union> audio_ids"
  by (simp_all add: image_ids_def video_ids_def audio_ids_def)

text \<open>Level 1 starts from the empty list and pushes without a check.\<close>

lemma level1_image_ok:
  "signals st = [] \<Longrightarrow> ids_ok image_ids (signals (level1_image ex route st))"
  using image_signals_ok [of ex _ "rawBuffer route" False]
    image_buffer_signals_ok [of ex "rawBuffer route"]
  by (auto simp: level1_image_def store_image_l1_def ids_ok_def split: option.splits)

lemma level1_video_ok:
  assumes "ids_ok image_ids (signals st)"
  shows "ids_ok (image_ids \<union> video_ids) (signals (level1_video ex route st))"
proof -
  have a: "ids_ok (image_ids \<union> video_ids) (signals st @ vr_signals (analyzeVideo ex fs t f))"
    for fs t f
    by (rule ids_ok_appendI [OF assms video_signals_ok ids_disjoint(1)])
  have b: "ids_ok (image_ids \<union> video_ids) (signals st)"
    by (rule ids_ok_mono [OF assms]) simp
  show ?thesis
    using a b by (simp add: level1_video_def Let_def split: option.splits)
qed

lemma level1_ok:
  assumes "signals st = []"
  shows "ids_ok (image_ids \<union> video_ids) (signals (level1 ex rnd route st))"
proof -
  have "signals (level1 ex rnd route st)
      = signals (level1_video ex route (level1_image ex route st))"
    by (simp add: level1_def level1_escalate_def level1_audio_def Let_def split: option.splits)
  then show ?thesis
    using level1_video_ok [OF level1_image_ok [OF assms]] by simp
qed

text \<open>Level 2 merges the image and video signals and pushes the audio signals.\<close>

lemma level2_image_ok:
  assumes "ids_ok (image_ids \<union> video_ids) (signals st)"
  shows "ids_ok (image_ids \<union> video_ids) (signals (level2_image ex route st))"
proof -
  have "ids_ok ((image_ids \<union> video_ids) \<union> image_ids)
          (merge_signals (signals st) (ir_signals (analyzeImage ex img buf t)))" for img buf t
    by (rule ids_ok_merge [OF assms ids_ok_subset [OF image_signals_ok]])
  then have "ids_ok (image_ids \<union> video_ids)
          (merge_signals (signals st) (ir_signals (analyzeImage ex img buf t)))" for img buf t
    by (simp add: Un_absorb1 Un_commute Un_left_commute)
  then show ?thesis
    using assms by (simp add: level2_image_def Let_def split: option.splits)
qed

lemma level2_video_ok:
  assumes "ids_ok (image_ids \<union> video_ids) (signals st)"
  shows "ids_ok (image_ids \<union> video_ids) (signals (level2_video ex route st))"
proof -
  have "ids_ok ((image_ids \<union> video_ids) \<union> video_ids)
          (merge_signals (signals st) (vr_signals (analyzeVideo ex fs t f)))" for fs t f
    by (rule ids_ok_merge [OF assms ids_ok_subset [OF video_signals_ok]])
  then have "ids_ok (image_ids \<union> video_ids)
          (merge_signals (signals st) (vr_signals (analyzeVideo ex fs t f)))" for fs t f
    by (simp add: Un_assoc)
  then show ?thesis
    using assms by (simp add: level2_video_def Let_def split: option.splits)
qed

lemma level2_audio_ok:
  assumes "ids_ok (image_ids \<union> video_ids) (signals st)"
  shows "ids_ok (image_ids \<union> video_ids \<union> audio_ids) (signals (level2_audio route st))"
proof -
  have a: "ids_ok (image_ids \<union> video_ids \<union> audio_ids)
          (signals st @ au_signals (analyzeAudio buf sr))" for buf sr
    by (rule ids_ok_appendI [OF assms audio_signals_ok ids_disjoint(2)])
  have b: "ids_ok (image_ids \<union> video_ids \<union> audio_ids) (signals st)"
    by (rule ids_ok_mono [OF assms]) simp
  show ?thesis
    using a b by (simp add: level2_audio_def Let_def split: option.splits)
qed

lemma level2_ok:
  assumes "ids_ok (image_ids \<union> video_ids) (signals st)"
  shows "ids_ok (image_ids \<union> video_ids \<union> audio_ids) (signals (level2 ex rnd route st))"
proof -
  have "signals (level2 ex rnd route st)
      = signals (level2_audio route (level2_video ex route (level2_image ex route st)))"
    by (simp add: level2_def level2_escalate_def Let_def)
  then show ?thesis
    using level2_audio_ok [OF level2_video_ok [OF level2_image_ok [OF assms]]] by simp
qed

text \<open>Level 3 merges the video signals and pushes the change-point signal.\<close>

lemma level3_video_ok:
  assumes "ids_ok (image_ids \<union> video_ids \<union> audio_ids) (signals st)"
  shows "ids_ok (image_ids \<union> video_ids \<union> audio_ids) (signals (level3_video ex route st))"
proof -
  have "ids_ok ((image_ids \<union> video_ids \<union> audio_ids) \<union> video_ids)
          (merge_signals (signals st) (vr_signals (analyzeVideo ex fs t f)))" for fs t f
    by (rule ids_ok_merge [OF assms ids_ok_subset [OF video_signals_ok]])
  moreover have "(image_ids \<union> video_ids \<union> audio_ids) \<union> video_ids
      = image_ids \<union> video_ids \<union> audio_ids"
    by blast
  ultimately show ?thesis
    using assms by (simp add: level3_video_def Let_def split: option.splits)
qed

lemma level3_cusum_ok:
  assumes "ids_ok (image_ids \<union> video_ids \<union> audio_ids) (signals st)"
  shows "distinct (map sig_id (signals (level3_cusum st)))"
proof -
  have "sig_id (cusum_signal cps) \<notin> set (map sig_id (signals st))" for cps
    using assms ids_disjoint(3) by (auto simp: ids_ok_def cusum_signal_def)
  then show ?thesis
    using assms by (simp add: level3_cusum_def Let_def ids_ok_def)
qed

lemma after_level1_ok:
  "ids_ok (image_ids \<union> video_ids) (signals (after_level1 ex r1 route))"
proof -
  have "signals (initial_state lvl) = []" for lvl
    by (simp add: initial_state_def)
  then show ?thesis
    using level1_ok by (cases "determineStartLevel (mediaType route) (fileSize route)")
      (simp_all add: after_level1_def Let_def initial_state_def)
qed

lemma after_level2_ok:
  "ids_ok (image_ids \<union> video_ids \<union> audio_ids) (signals (after_level2 ex r1 r2 route))"
proof -
  have "ids_ok (image_ids \<union> video_ids \<union> audio_ids) (signals (after_level1 ex r1 route))"
    by (rule ids_ok_mono [OF after_level1_ok]) simp
  then show ?thesis
    using level2_ok [OF after_level1_ok] by (simp add: after_level2_def Let_def)
qed

lemma run_levels_distinct: "distinct (map sig_id (signals (run_levels ex r1 r2 route)))"
  using level3_cusum_ok [OF level3_video_ok [OF after_level2_ok]] after_level2_ok
  by (simp add: run_levels_def Let_def level3_def ids_ok_def)

text \<open>Every level keeps the running list and appends to it.\<close>

lemma merge_fold_extends:
  "\<exists>added. fst (fold (\<lambda>sg (acc, existingIds).
            if sig_id sg \<notin> existingIds
            then (acc @ [sg], insert (sig_id sg) existingIds)
            else (acc, existingIds)) new (acc, E)) = acc @ added"
proof (induction new arbitrary: acc E)
  case Nil
  then show ?case by simp
next
  case (Cons sg new)
  show ?case
  proof (cases "sig_id sg \<in> E")
    case True
    then show ?thesis using Cons.IH [of acc E] by simp
  next
    case False
    then show ?thesis using Cons.IH [of "acc @ [sg]" "insert (sig_id sg) E"] by auto
  qed
qed

lemma merge_signals_prefix: "\<exists>added. merge_signals sigs new = sigs @ added"
  unfolding merge_signals_def by (rule merge_fold_extends)

lemma level1_extends: "\<exists>added. signals (level1 ex rnd route st) = signals st @ added"
  by (simp add: level1_def level1_escalate_def level1_audio_def level1_video_def
      level1_image_def store_image_l1_def Let_def split: option.splits)

lemma level2_extends: "\<exists>added. signals (level2 ex rnd route st) = signals st @ added"
proof -
  have a: "\<exists>added. signals (level2_image ex route st) = signals st @ added" for st
    using merge_signals_prefix
    by (simp add: level2_image_def Let_def split: option.splits)
  have b: "\<exists>added. signals (level2_video ex route st) = signals st @ added" for st
    using merge_signals_prefix
    by (simp add: level2_video_def Let_def split: option.splits)
  have c: "\<exists>added. signals (level2_audio route st) = signals st @ added" for st
    by (simp add: level2_audio_def Let_def split: option.splits)
  have d: "signals (level2 ex rnd route st)
      = signals (level2_audio route (level2_video ex route (level2_image ex route st)))"
    by (simp add: level2_def level2_escalate_def Let_def)
  from a [of st] obtain a1 where a1: "signals (level2_image ex route st) = signals st @ a1"
    by blast
  from b [of "level2_image ex route st"] obtain a2 where
    a2: "signals (level2_video ex route (level2_image ex route st))
         = signals (level2_image ex route st) @ a2"
    by blast
  from c [of "level2_video ex route (level2_image ex route st)"] obtain a3 where
    a3: "signals (level2_audio route (level2_video ex route (level2_image ex route st)))
         = signals (level2_video ex route (level2_image ex route st)) @ a3"
    by blast
  show ?thesis
    unfolding d a3 a2 a1 by simp
qed

lemma level3_extends: "\<exists>added. signals (level3 ex route st) = signals st @ added"
proof -
  have a: "\<exists>added. signals (level3_video ex route st) = signals st @ added" for st
    using merge_signals_prefix
    by (simp add: level3_video_def Let_def split: option.splits)
  have b: "\<exists>added. signals (level3_cusum st) = signals st @ added" for st
    by (simp add: level3_cusum_def Let_def)
  from a [of st] obtain a1 where a1: "signals (level3_video ex route st) = signals st @ a1"
    by blast
  from b [of "level3_video ex route st"] obtain a2 where
    a2: "signals (level3_cusum (level3_video ex route st))
         = signals (level3_video ex route st) @ a2"
    by blast
  show ?thesis
    unfolding level3_def a2 a1 by simp
qed

lemma pipeline_extends:
  "\<exists>a1 a2 a3. signals (after_level1 ex r1 route) = a1
     \<and> signals (after_level2 ex r1 r2 route) = a1 @ a2
     \<and> signals (run_levels ex r1 r2 route) = a1 @ a2 @ a3"
proof -
  have "\<exists>a2. signals (after_level2 ex r1 r2 route) = signals (after_level1 ex r1 route) @ a2"
    using level2_extends [of ex r2 route "after_level1 ex r1 route"]
    by (cases "\<not> ps_earlyExit (after_level1 ex r1 route)
            \<and> (currentLevel (after_level1 ex r1 route) = level2_deep_spatial
               \<or> currentLevel (after_level1 ex r1 route) = level3_temporal_crossmodal)")
       (simp_all add: after_level2_def Let_def)
  then obtain a2 where a2: "signals (after_level2 ex r1 r2 route)
      = signals (after_level1 ex r1 route) @ a2"
    by blast
  have "\<exists>a3. signals (run_levels ex r1 r2 route)
      = signals (after_level2 ex r1 r2 route) @ a3"
    using level3_extends [of ex route "after_level2 ex r1 r2 route"]
    by (cases "\<not> ps_earlyExit (after_level2 ex r1 r2 route)
            \<and> currentLevel (after_level2 ex r1 r2 route) = level3_temporal_crossmodal")
       (simp_all add: run_levels_def Let_def)
  then obtain a3 where a3: "signals (run_levels ex r1 r2 route)
      = signals (after_level2 ex r1 r2 route) @ a3"
    by blast
  show ?thesis
    using a2 a3 by simp
qed

text \<open>
  C8. For every routed input, every value of the extractors and every random draw, the
  signal identifiers in the result of \<open>runPipeline\<close> are pairwise distinct. Each level
  keeps the running signal list and appends to it, and no identifier a level appends is
  already in the list it extends. The merge used at the deeper levels keeps the running
  list and appends to it only signals of the new list whose identifier is not present.
\<close>

theorem C8_signal_ids_distinct:
  "distinct (map sig_id (res_signals (runPipeline ex random1 random2 route)))
   \<and> (\<exists>a1 a2 a3.
         signals (after_level1 ex random1 route) = a1
       \<and> signals (after_level2 ex random1 random2 route) = a1 @ a2
       \<and> res_signals (runPipeline ex random1 random2 route) = a1 @ a2 @ a3
       \<and> set (map sig_id a2) \<inter> set (map sig_id a1) = {}
       \<and> set (map sig_id a3) \<inter> set (map sig_id (a1 @ a2)) = {})
   \<and> (distinct (map sig_id sigs) \<longrightarrow>
        distinct (map sig_id (merge_signals sigs new))
        \<and> (\<exists>added. merge_signals sigs new = sigs @ added \<and> set added \<subseteq> set new
                   \<and> (\<forall>sg\<in>set added. sig_id sg \<notin> set (map sig_id sigs))))"
proof -
  have r: "res_signals (runPipeline ex random1 random2 route)
      = signals (run_levels ex random1 random2 route)"
    by (simp add: runPipeline_def Let_def)
  have d: "distinct (map sig_id (res_signals (runPipeline ex random1 random2 route)))"
    unfolding r by (rule run_levels_distinct)
  obtain a1 a2 a3 where a: "signals (after_level1 ex random1 route) = a1"
    "signals (after_level2 ex random1 random2 route) = a1 @ a2"
    "signals (run_levels ex random1 random2 route) = a1 @ a2 @ a3"
    using pipeline_extends by blast
  from d have "distinct (map sig_id (a1 @ a2 @ a3))"
    unfolding r a(3) .
  then have "set (map sig_id a2) \<inter> set (map sig_id a1) = {}"
    "set (map sig_id a3) \<inter> set (map sig_id (a1 @ a2)) = {}"
    by auto
  with a d show ?thesis
    using merge_signals_extends [of sigs new] unfolding r by blast
qed

theorem C8_signal_ids_distinct_witness:
  "map sig_id (res_signals (runPipeline ex0 0.1 0.1 route0))
     = [''meta-exif-stripped'', ''meta-edited'']
   \<and> distinct (map sig_id (res_signals (runPipeline ex0 0.1 0.1 route0)))
   \<and> distinct (map sig_id [cusum_signal []])
   \<and> distinct (map sig_id (merge_signals [cusum_signal []] [cusum_signal [], cusum_signal []]))"
proof -
  have d: "distinct (map sig_id [cusum_signal []])" by simp
  from C8_signal_ids_distinct
    [of ex0 "0.1" "0.1" route0 "[cusum_signal []]" "[cusum_signal [], cusum_signal []]"] d
  show ?thesis
    using run0_signals by blast
qed


section \<open>Audio metrics on an input shorter than one frame\<close>

lemma computeSTFT_short:
  "length samples < frameSize \<Longrightarrow> computeSTFT samples frameSize hopSize = []"
  by (simp add: computeSTFT_def)

lemma short_etk:
  "length samples < frameSize \<Longrightarrow> em_etk (computeEnergyTransition samples frameSize) = 0"
  by (simp add: computeEnergyTransition_def computeSTFT_short kurtosis_def)

lemma short_pvss:
  "length samples < frameSize \<Longrightarrow>
   pm_pvss (computePitchMetrics samples sampleRate frameSize) = 0"
  by (simp add: computePitchMetrics_def)

lemma short_frd:
  "length samples < frameSize \<Longrightarrow> sf_frd (computeSpectralFlatness samples frameSize) = NaN"
  by (simp add: computeSpectralFlatness_def computeSTFT_short mean_or_NaN_def lift1_def)

lemma short_signals:
  "length samples < 1024 \<Longrightarrow> au_signals (analyzeAudio samples sampleRate) = []"
  by (simp add: analyzeAudio_def Let_def etk_signal_def pvss_signal_def frd_signal_def
      short_etk short_frd js_lt_def computePitchMetrics_def)

text \<open>
  C7. On every sample sequence shorter than the 1024-sample analysis frame,
  \<open>computeEnergyTransition\<close> returns \<open>etk = 0\<close>, \<open>computePitchMetrics\<close> returns
  \<open>pvss = 0\<close> and \<open>analyzeAudio\<close> generates no signal, as the claim says; but
  \<open>computeSpectralFlatness\<close> divides the empty sum of flatness values by their number 0
  and returns \<open>frd = NaN\<close>, not 0.
\<close>

theorem C7_short_audio_frd_is_NaN:
  assumes "length samples < 1024"
  shows "em_etk (computeEnergyTransition samples 1024) = 0
   \<and> pm_pvss (computePitchMetrics samples sampleRate 2048) = 0
   \<and> au_signals (analyzeAudio samples sampleRate) = []
   \<and> flatnessValues (computeSpectralFlatness samples 1024) = []
   \<and> sf_frd (computeSpectralFlatness samples 1024) = NaN
   \<and> sf_frd (computeSpectralFlatness samples 1024) \<noteq> Num 0"
proof -
  have "length samples < 2048"
    using assms by simp
  then have "pm_pvss (computePitchMetrics samples sampleRate 2048) = 0"
    by (rule short_pvss)
  moreover have "flatnessValues (computeSpectralFlatness samples 1024) = []"
    using assms by (simp add: computeSpectralFlatness_def computeSTFT_short)
  ultimately show ?thesis
    using assms by (simp add: short_etk short_frd short_signals)
qed

text \<open>
  The \<open>NaN\<close> reaches the result of the pipeline: for the audio file of three samples the
  calibrated probability is \<open>NaN\<close>, whatever the extractors and the random draws.
\<close>

lemma short_analyzeAudio_frd:
  "length samples < 1024 \<Longrightarrow> sf_frd (spectralFlatness (analyzeAudio samples sr)) = NaN"
  by (simp add: analyzeAudio_def Let_def short_frd)

lemma score_frd_NaN:
  assumes "frd v = Some NaN"
  shows "fakeProbability (scoreFeatureVector v sigs mt) = NaN"
  using score_NaN_slot [OF assms]
  by (simp add: scoreFeatureVector_def Let_def plattScale_default_def plattScale_def lift1_def)

lemma level1_escalate_level:
  "currentLevel st = level2_deep_spatial \<Longrightarrow>
   currentLevel (level1_escalate rnd route st) = level2_deep_spatial"
  by (simp add: level1_escalate_def Let_def no_early_exit)

lemma level2_escalate_vector:
  "featureVector (level2_escalate rnd route st) = featureVector st"
  by (simp add: level2_escalate_def Let_def)

lemma level3_frd: "frd (featureVector (level3 ex route st)) = frd (featureVector st)"
  by (simp add: level3_def level3_cusum_def level3_video_def Let_def split: option.splits)

lemma level2_audio_frd:
  "audioBuffer route = Some buf \<Longrightarrow>
   frd (featureVector (level2_audio route st))
     = Some (sf_frd (spectralFlatness (analyzeAudio buf 44100)))"
  by (simp add: level2_audio_def Let_def)

lemma short_audio_vector:
  "frd (featureVector (run_levels ex r1 r2 route_short_audio)) = Some NaN"
proof -
  define st0 where "st0 = initial_state (determineStartLevel (mediaType route_short_audio)
                                          (fileSize route_short_audio))"
  have l0: "currentLevel st0 = level2_deep_spatial" "ps_earlyExit st0 = False"
    by (simp_all add: st0_def initial_state_def determineStartLevel_def route_short_audio_def)
  have s1: "after_level1 ex r1 route_short_audio = level1 ex r1 route_short_audio st0"
    by (simp add: after_level1_def Let_def st0_def [symmetric] l0)
  have l1: "currentLevel (after_level1 ex r1 route_short_audio) = level2_deep_spatial"
    unfolding s1 level1_def
    by (rule level1_escalate_level)
       (simp add: level1_audio_def level1_video_def level1_image_def l0 route_short_audio_def
          Let_def)
  have e1: "ps_earlyExit (after_level1 ex r1 route_short_audio) = False"
    by (simp add: s1 level1_earlyExit l0)
  have s2: "after_level2 ex r1 r2 route_short_audio
      = level2 ex r2 route_short_audio (after_level1 ex r1 route_short_audio)"
    by (simp add: after_level2_def Let_def l1 e1)
  have f2: "frd (featureVector (after_level2 ex r1 r2 route_short_audio)) = Some NaN"
    unfolding s2 level2_def level2_escalate_vector
    by (simp add: level2_audio_frd [of _ "[0.5, - 0.25, 0.125]"] route_short_audio_def
        short_analyzeAudio_frd)
  show ?thesis
    using f2 by (simp add: run_levels_def Let_def level3_frd)
qed

lemma short_audio_pipeline:
  "res_fakeProbability (runPipeline ex r1 r2 route_short_audio) = NaN"
  by (simp add: runPipeline_def Let_def score_frd_NaN short_audio_vector)

theorem C7_short_audio_frd_is_NaN_witness:
  "length [0.5, - 0.25, 0.125 :: real] < 1024
   \<and> em_etk (computeEnergyTransition [0.5, - 0.25, 0.125] 1024) = 0
   \<and> pm_pvss (computePitchMetrics [0.5, - 0.25, 0.125] 44100 2048) = 0
   \<and> au_signals (analyzeAudio [0.5, - 0.25, 0.125] 44100) = []
   \<and> sf_frd (computeSpectralFlatness [0.5, - 0.25, 0.125] 1024) = NaN
   \<and> res_fakeProbability (runPipeline ex0 0.1 0.1 route_short_audio) = NaN"
proof -
  have h: "length [0.5, - 0.25, 0.125 :: real] < 1024" by simp
  from C7_short_audio_frd_is_NaN [OF h, of 44100] short_audio_pipeline [of ex0 "0.1" "0.1"] h
  show ?thesis by blast
qed


section \<open>Pipeline: a fully populated feature vector with a \<open>NaN\<close> slot\<close>

text \<open>
  For a video of at least 3 frames with an audio track shorter than one frame, and
  random draws that escalate, the pipeline runs all three levels: Level 1 measures
  \<open>hfer\<close>, \<open>svd\<close> and \<open>tiis\<close>, Level 2 \<open>pdi\<close> and the three audio metrics, Level 3 \<open>fav\<close>.
  All eight slots of the final feature vector are populated, and \<open>frd\<close> holds \<open>NaN\<close>.
\<close>

lemma level1_slots:
  assumes "mediaType route = mt_video" "frames route = Some fs" "0 < length fs"
  shows "hfer (featureVector (level1 ex r1 route st)) \<noteq> None"
    "svd (featureVector (level1 ex r1 route st)) \<noteq> None"
    "tiis (featureVector (level1 ex r1 route st)) \<noteq> None"
  using assms
  by (simp_all add: level1_def level1_escalate_def level1_audio_def level1_video_def
      level1_image_def analyzeVideo_def Let_def split: option.splits)

lemma level1_escalates:
  assumes "r1 < 0.2" "currentLevel st = level1_lightweight"
  shows "currentLevel (level1 ex r1 route st) = level2_deep_spatial"
proof -
  have c: "currentLevel (level1_audio route (level1_video ex route (level1_image ex route st)))
      = level1_lightweight"
    using assms(2)
    by (simp add: level1_audio_def level1_video_def level1_image_def store_image_l1_def Let_def
        split: option.splits)
  show ?thesis
    using assms(1) c
    by (simp add: level1_def level1_escalate_def evaluateEscalation_def Let_def)
qed

lemma level2_keeps:
  "hfer (featureVector st) \<noteq> None \<Longrightarrow> hfer (featureVector (level2 ex r2 route st)) \<noteq> None"
  "svd (featureVector st) \<noteq> None \<Longrightarrow> svd (featureVector (level2 ex r2 route st)) \<noteq> None"
  "tiis (featureVector st) \<noteq> None \<Longrightarrow> tiis (featureVector (level2 ex r2 route st)) \<noteq> None"
  by (simp_all add: level2_def level2_escalate_vector level2_audio_def level2_video_def
      level2_image_def Let_def split: option.splits)

lemma level2_slots:
  assumes "mediaType route = mt_video" "frames route = Some fs" "0 < length fs"
    "audioBuffer route = Some buf"
  shows "pdi (featureVector (level2 ex r2 route st)) \<noteq> None"
    "etk (featureVector (level2 ex r2 route st)) \<noteq> None"
    "pvss (featureVector (level2 ex r2 route st)) \<noteq> None"
    "frd (featureVector (level2 ex r2 route st))
       = Some (sf_frd (spectralFlatness (analyzeAudio buf 44100)))"
  using assms
  by (simp_all add: level2_def level2_escalate_vector level2_audio_def level2_video_def
      level2_image_def analyzeVideo_def Let_def split: option.splits)

lemma level2_escalates:
  assumes "r2 < 0.2"
  shows "currentLevel (level2 ex r2 route st) = level3_temporal_crossmodal"
  using assms
  by (simp add: level2_def level2_escalate_def evaluateEscalation_def Let_def)

lemma level3_keeps:
  "slot (featureVector st) k \<noteq> None \<Longrightarrow> k \<noteq> Fav \<Longrightarrow>
     slot (featureVector (level3 ex route st)) k = slot (featureVector st) k"
  by (cases k)
     (simp_all add: level3_def level3_cusum_def level3_video_def Let_def split: option.splits)

lemma level3_fav:
  assumes "mediaType route = mt_video" "frames route = Some fs" "3 \<le> length fs"
  shows "fav (featureVector (level3 ex route st)) \<noteq> None"
  using assms
  by (simp add: level3_def level3_cusum_def level3_video_def analyzeVideo_def Let_def
      split: option.splits)


lemma video_short_audio_vector:
  assumes mt: "mediaType route = mt_video" and sz: "fileSize route \<le> 20000000"
    and fs: "frames route = Some fs" and n: "3 \<le> length fs"
    and au: "audioBuffer route = Some buf" and short: "length buf < 1024"
    and r1: "r1 < 0.2" and r2: "r2 < 0.2"
  shows "populated (featureVector (run_levels ex r1 r2 route)) = feature_keys
       \<and> frd (featureVector (run_levels ex r1 r2 route)) = Some NaN"
proof -
  define st0 where "st0 = initial_state (determineStartLevel (mediaType route) (fileSize route))"
  define st1 where "st1 = level1 ex r1 route st0"
  define st2 where "st2 = level2 ex r2 route st1"
  define st3 where "st3 = level3 ex route st2"
  have pos: "0 < length fs" using n by (cases fs) simp_all
  have l0: "currentLevel st0 = level1_lightweight" and e0: "ps_earlyExit st0 = False"
    using mt sz by (simp_all add: st0_def initial_state_def determineStartLevel_def)
  have a1: "after_level1 ex r1 route = st1"
    by (simp add: after_level1_def Let_def st0_def [symmetric] st1_def l0)
  have l1: "currentLevel st1 = level2_deep_spatial"
    unfolding st1_def by (rule level1_escalates [OF r1 l0])
  have e1: "ps_earlyExit st1 = False"
    by (simp add: st1_def level1_earlyExit e0)
  have a2: "after_level2 ex r1 r2 route = st2"
    by (simp add: after_level2_def Let_def a1 l1 e1 st2_def)
  have l2: "currentLevel st2 = level3_temporal_crossmodal"
    unfolding st2_def by (rule level2_escalates [OF r2])
  have e2: "ps_earlyExit st2 = False"
    by (simp add: st2_def level2_earlyExit e1)
  have a3: "run_levels ex r1 r2 route = st3"
    by (simp add: run_levels_def Let_def a2 l2 e2 st3_def)
  have v1: "hfer (featureVector st1) \<noteq> None" "svd (featureVector st1) \<noteq> None"
    "tiis (featureVector st1) \<noteq> None"
    unfolding st1_def by (rule level1_slots [OF mt fs pos])+
  have v2: "slot (featureVector st2) k \<noteq> None" if "k \<noteq> Fav" for k
    using that v1 level2_keeps [of st1 ex r2 route] level2_slots [OF mt fs pos au, of ex r2 st1]
    by (cases k) (simp_all add: st2_def)
  have f2: "frd (featureVector st2) = Some NaN"
    using level2_slots(4) [OF mt fs pos au, of ex r2 st1] short
    by (simp add: st2_def short_analyzeAudio_frd)
  have v3: "slot (featureVector st3) k \<noteq> None" for k
  proof (cases "k = Fav")
    case True
    then show ?thesis
      using level3_fav [OF mt fs n, of ex st2] by (simp add: st3_def)
  next
    case False
    then show ?thesis
      using level3_keeps [OF v2 [OF False] False, of ex route] v2 [OF False]
      by (simp add: st3_def)
  qed
  have f3: "frd (featureVector st3) = Some NaN"
    by (simp add: st3_def level3_frd f2)
  have "populated (featureVector st3) = feature_keys"
    by (rule populated_all) (simp add: v3)
  then show ?thesis
    unfolding a3 using f3 by simp
qed

text \<open>
  The example video with the short audio track: the vector the pipeline scores has all
  eight slots populated, and its ensemble score and calibrated probability are \<open>NaN\<close>.
\<close>

lemma video_short_audio_pipeline:
  "populated (res_featureVector (runPipeline ex0 0.1 0.1 route_video_short_audio)) = feature_keys
   \<and> computeEnsembleScore (res_featureVector (runPipeline ex0 0.1 0.1 route_video_short_audio))
       = NaN
   \<and> res_fakeProbability (runPipeline ex0 0.1 0.1 route_video_short_audio) = NaN"
proof -
  have v: "populated (featureVector (run_levels ex0 0.1 0.1 route_video_short_audio))
             = feature_keys
       \<and> frd (featureVector (run_levels ex0 0.1 0.1 route_video_short_audio)) = Some NaN"
    by (rule video_short_audio_vector [where fs = "[frame_P, frame_P, frame_Q, frame_Q]"
          and buf = "[0.5, - 0.25, 0.125]"])
       (simp_all add: route_video_short_audio_def)
  have r: "res_featureVector (runPipeline ex0 0.1 0.1 route_video_short_audio)
      = featureVector (run_levels ex0 0.1 0.1 route_video_short_audio)"
    by (simp add: runPipeline_def Let_def)
  show ?thesis
    using v score_NaN_slot [of "featureVector (run_levels ex0 0.1 0.1 route_video_short_audio)"]
      score_frd_NaN [of "featureVector (run_levels ex0 0.1 0.1 route_video_short_audio)"]
    by (simp add: r runPipeline_def Let_def)
qed


section \<open>Spectral core: the transform and its inverse\<close>

subsection \<open>The bit-reversal permutation\<close>

lemma bitrev_less: "bitrev w v < 2 ^ w"
proof (induction w arbitrary: v)
  case 0
  then show ?case by simp
next
  case (Suc w)
  have "v mod 2 = 0 \<or> v mod 2 = 1" by auto
  with Suc [of "v div 2"] show ?case by auto
qed

lemma bit_low: "j < 2 ^ m \<Longrightarrow> \<not> bit (j::nat) m"
  by (simp add: bit_iff_odd)

lemma bit_high: "j < 2 ^ m \<Longrightarrow> bit (2 ^ m + j :: nat) m"
  by (simp add: bit_iff_odd)

lemma and_exp_low: "j < 2 ^ m \<Longrightarrow> and j (2 ^ m) = (0::nat)"
  by (simp add: and_exp_eq_0_iff_not_bit bit_low)

lemma and_exp_high: "j < 2 ^ m \<Longrightarrow> and (2 ^ m + j) (2 ^ m) \<noteq> (0::nat)"
  by (simp add: and_exp_eq_0_iff_not_bit bit_high)

lemma xor_exp_flip: "xor j (2 ^ m) = flip_bit m (j::nat)"
  by (simp add: flip_bit_eq_xor)

lemma xor_exp_low: "j < 2 ^ m \<Longrightarrow> xor j (2 ^ m) = j + (2::nat) ^ m"
  by (simp add: xor_exp_flip flip_bit_eq_if bit_low set_bit_eq)

lemma xor_exp_high:
  assumes "j < 2 ^ m"
  shows "xor (2 ^ m + j) (2 ^ m) = (j::nat)"
proof -
  have "2 ^ m + j = xor j (2 ^ m)"
    using xor_exp_low [OF assms] by (simp add: add.commute)
  then show ?thesis
    by (simp add: xor.assoc)
qed

lemma bitrev_even: "bitrev (Suc w) (2 * b) = bitrev w b"
  by simp

lemma bitrev_odd: "bitrev (Suc w) (Suc (2 * b)) = 2 ^ w + bitrev w b"
  by simp

lemma next_j_bitrev:
  "v + 1 < 2 ^ Suc w \<Longrightarrow>
   (case rev_step (bitrev (Suc w) v) (2 ^ w) of (j', bt) \<Rightarrow> xor j' bt) = bitrev (Suc w) (v + 1)"
proof (induction w arbitrary: v)
  case 0
  then have "v = 0" by simp
  then show ?case by simp
next
  case (Suc w)
  show ?case
  proof (cases "even v")
    case True
    then have m: "v mod 2 = 0" "Suc v mod 2 = 1" "Suc v div 2 = v div 2"
      by (auto simp: mod2_Suc_Suc elim!: evenE)
    have lt: "bitrev (Suc w) (v div 2) < 2 ^ Suc w"
      by (rule bitrev_less)
    have j: "bitrev (Suc (Suc w)) v = bitrev (Suc w) (v div 2)"
      using m by simp
    have "rev_step (bitrev (Suc (Suc w)) v) (2 ^ Suc w)
        = (bitrev (Suc w) (v div 2), 2 ^ Suc w)"
      unfolding j using and_exp_low [OF lt] by (subst rev_step.simps) simp
    then show ?thesis
      using xor_exp_low [OF lt] m by simp
  next
    case False
    then have m: "v mod 2 = 1" "Suc v mod 2 = 0" "Suc v div 2 = Suc (v div 2)"
      by (auto elim!: oddE)
    have lt: "bitrev (Suc w) (v div 2) < 2 ^ Suc w"
      by (rule bitrev_less)
    have j: "bitrev (Suc (Suc w)) v = 2 ^ Suc w + bitrev (Suc w) (v div 2)"
      using m by simp
    have small: "v div 2 + 1 < 2 ^ Suc w"
      using Suc.prems False by (auto elim!: oddE)
    have "rev_step (bitrev (Suc (Suc w)) v) (2 ^ Suc w)
        = rev_step (bitrev (Suc w) (v div 2)) (2 ^ w)"
      unfolding j using and_exp_high [OF lt] xor_exp_high [OF lt]
      by (subst rev_step.simps) (simp add: drop_bit_eq_div)
    then show ?thesis
      using Suc.IH [OF small] m by simp
  qed
qed

lemma next_j_correct:
  assumes "0 < w" "v + 1 < 2 ^ w"
  shows "next_j (2 ^ w) (bitrev w v) = bitrev w (v + 1)"
proof -
  from assms(1) obtain u where w: "w = Suc u" by (cases w) auto
  show ?thesis
    using next_j_bitrev [of v u] assms(2)
    by (simp add: next_j_def w drop_bit_eq_div)
qed

lemma bitrev_zero [simp]: "bitrev w 0 = 0"
  by (induction w) simp_all

lemma bitrev_dual:
  "v < 2 ^ Suc w \<Longrightarrow> bitrev (Suc w) v = 2 * bitrev w (v mod 2 ^ w) + v div 2 ^ w"
proof (induction w arbitrary: v)
  case 0
  then show ?case by simp
next
  case (Suc w)
  have lt: "v div 2 < 2 ^ Suc w"
    using Suc.prems by simp
  have a: "(v mod 2 ^ Suc w) mod 2 = v mod 2"
    by (simp add: mod_mod_cancel)
  have b: "(v mod 2 ^ Suc w) div 2 = (v div 2) mod 2 ^ w"
    using div_exp_mod_exp_eq [of v 1 w] by simp
  have c: "v div 2 ^ Suc w = (v div 2) div 2 ^ w"
    by (simp add: div_mult2_eq)
  have "bitrev (Suc (Suc w)) v = (v mod 2) * 2 ^ Suc w + bitrev (Suc w) (v div 2)"
    by simp
  also have "\<dots> = (v mod 2) * 2 ^ Suc w
      + (2 * bitrev w ((v div 2) mod 2 ^ w) + (v div 2) div 2 ^ w)"
    using Suc.IH [OF lt] by simp
  also have "\<dots> = 2 * bitrev (Suc w) (v mod 2 ^ Suc w) + v div 2 ^ Suc w"
    unfolding bitrev.simps(2) [of w "v mod 2 ^ Suc w"] a b c by simp
  finally show ?case .
qed

lemma bitrev_involution: "v < 2 ^ w \<Longrightarrow> bitrev w (bitrev w v) = v"
proof (induction w arbitrary: v)
  case 0
  then show ?case by simp
next
  case (Suc w)
  define u where "u = (v mod 2) * 2 ^ w + bitrev w (v div 2)"
  have lt: "bitrev w (v div 2) < 2 ^ w"
    by (rule bitrev_less)
  have u1: "u mod 2 ^ w = bitrev w (v div 2)"
    using lt by (simp add: u_def)
  have u2: "u div 2 ^ w = v mod 2"
    using lt by (simp add: u_def)
  have ult: "u < 2 ^ Suc w"
    using bitrev_less [of "Suc w" v] by (simp add: u_def)
  have "v div 2 < 2 ^ w"
    using Suc.prems by simp
  then have ih: "bitrev w (bitrev w (v div 2)) = v div 2"
    by (rule Suc.IH)
  have "bitrev (Suc w) (bitrev (Suc w) v) = bitrev (Suc w) u"
    by (simp add: u_def)
  also have "\<dots> = 2 * bitrev w (u mod 2 ^ w) + u div 2 ^ w"
    by (rule bitrev_dual [OF ult])
  also have "\<dots> = v"
    unfolding u1 u2 ih by simp
  finally show ?case .
qed

lemma bitrev_eq_iff:
  assumes "p < 2 ^ w" "q < 2 ^ w"
  shows "bitrev w p = q \<longleftrightarrow> p = bitrev w q"
  using assms bitrev_involution by auto

lemma partly_nth:
  "p < 2 ^ w \<Longrightarrow>
     partly w m xs ! p = (if p < m \<or> bitrev w p < m then xs ! bitrev w p else xs ! p)"
  by (simp add: partly_def)

lemma length_partly [simp]: "length (partly w m xs) = 2 ^ w"
  by (simp add: partly_def)

lemma length_swap_at [simp]: "length (swap_at xs i j) = length xs"
  by (simp add: swap_at_def)

lemma swap_at_nth:
  "i < length xs \<Longrightarrow> j < length xs \<Longrightarrow> p < length xs \<Longrightarrow>
     swap_at xs i j ! p = (if p = j then xs ! i else if p = i then xs ! j else xs ! p)"
  by (simp add: swap_at_def nth_list_update)

lemma partly_step:
  assumes m: "m < 2 ^ w"
  shows "(if m < bitrev w m then swap_at (partly w m xs) m (bitrev w m) else partly w m xs)
         = partly w (Suc m) xs"
proof (rule nth_equalityI)
  show "length (if m < bitrev w m then swap_at (partly w m xs) m (bitrev w m)
                else partly w m xs) = length (partly w (Suc m) xs)"
    by simp
next
  fix p
  assume "p < length (if m < bitrev w m then swap_at (partly w m xs) m (bitrev w m)
                      else partly w m xs)"
  then have p: "p < 2 ^ w"
    by (simp split: if_splits)
  define r where "r = bitrev w m"
  define A where "A = partly w m xs"
  define B where "B = partly w (Suc m) xs"
  have r: "r < 2 ^ w" unfolding r_def by (rule bitrev_less)
  have rr: "bitrev w r = m" unfolding r_def by (rule bitrev_involution [OF m])
  have pm: "bitrev w p = m \<longleftrightarrow> p = r"
    unfolding r_def by (rule bitrev_eq_iff [OF p m])
  have Am: "A ! m = (if r < m then xs ! r else xs ! m)"
    unfolding A_def by (simp add: partly_nth [OF m] r_def)
  have Ar: "A ! r = (if r < m then xs ! m else xs ! r)"
    unfolding A_def by (simp add: partly_nth [OF r] rr)
  have Bm: "B ! m = xs ! r"
    unfolding B_def by (simp add: partly_nth [OF m] r_def)
  have Br: "B ! r = xs ! m"
    unfolding B_def by (simp add: partly_nth [OF r] rr)
  have other: "B ! p = A ! p" if "p \<noteq> m" "p \<noteq> r"
  proof -
    have "bitrev w p \<noteq> m" using pm that by simp
    then show ?thesis
      unfolding A_def B_def using that by (simp add: partly_nth [OF p] less_Suc_eq)
  qed
  have lenA: "length A = 2 ^ w" by (simp add: A_def)
  have goal: "(if m < r then swap_at A m r else A) ! p = B ! p"
  proof (cases "m < r")
    case True
    have "swap_at A m r ! p = (if p = r then A ! m else if p = m then A ! r else A ! p)"
      by (rule swap_at_nth) (simp_all add: lenA m r p)
    also have "\<dots> = B ! p"
      using True Am Ar Bm Br other by (cases "p = r"; cases "p = m") simp_all
    finally show ?thesis using True by simp
  next
    case False
    consider "p = m" | "p = r" | "p \<noteq> m" "p \<noteq> r" by blast
    then have "A ! p = B ! p"
    proof cases
      case 1
      then show ?thesis using False Am Bm by (cases "r < m") simp_all
    next
      case 2
      then show ?thesis using False Ar Br by (cases "r < m") simp_all
    next
      case 3
      then show ?thesis using other by simp
    qed
    then show ?thesis using False by simp
  qed
  then show "(if m < bitrev w m then swap_at (partly w m xs) m (bitrev w m)
         else partly w m xs) ! p = partly w (Suc m) xs ! p"
    unfolding r_def A_def B_def .
qed

lemma partly_one: "length xs = 2 ^ w \<Longrightarrow> partly w (Suc 0) xs = xs"
proof (rule nth_equalityI)
  show "length xs = 2 ^ w \<Longrightarrow> length (partly w (Suc 0) xs) = length xs"
    by (simp add: partly_def)
next
  fix p
  assume len: "length xs = 2 ^ w" and "p < length (partly w (Suc 0) xs)"
  then have p: "p < 2 ^ w" by (simp add: partly_def)
  have "bitrev w p = 0 \<longleftrightarrow> p = bitrev w 0"
    by (rule bitrev_eq_iff [OF p]) simp
  then show "partly w (Suc 0) xs ! p = xs ! p"
    using p by (auto simp: partly_def)
qed

lemma partly_all: "partly w (2 ^ w) xs = map (\<lambda>p. xs ! bitrev w p) [0..<2 ^ w]"
  by (simp add: partly_def)

lemma bitrev_loop:
  assumes "0 < w" "length re = 2 ^ w" "length im = 2 ^ w"
  shows "m < 2 ^ w \<Longrightarrow>
    fold (bitrev_step (2 ^ w)) [1..<Suc m] (0, re, im)
      = (bitrev w m, partly w (Suc m) re, partly w (Suc m) im)"
proof (induction m)
  case 0
  then show ?case
    using assms by (simp add: partly_one)
next
  case (Suc m)
  then have m: "m < 2 ^ w" and sm: "Suc m < 2 ^ w" by simp_all
  have nj: "next_j (2 ^ w) (bitrev w m) = bitrev w (Suc m)"
    using next_j_correct [OF assms(1), of m] sm by simp
  have "fold (bitrev_step (2 ^ w)) [1..<Suc (Suc m)] (0, re, im)
      = bitrev_step (2 ^ w) (Suc m) (bitrev w m, partly w (Suc m) re, partly w (Suc m) im)"
    using Suc.IH [OF m] by simp
  also have "\<dots> = (bitrev w (Suc m), partly w (Suc (Suc m)) re, partly w (Suc (Suc m)) im)"
    using partly_step [OF sm, of re] partly_step [OF sm, of im]
    by (cases "Suc m < bitrev w (Suc m)") (simp_all add: bitrev_step_def nj Let_def)
  finally show ?case .
qed

lemma bit_reverse_correct:
  assumes "0 < w" "length re = 2 ^ w" "length im = 2 ^ w"
  shows "bit_reverse (2 ^ w) (re, im)
    = (map (\<lambda>p. re ! bitrev w p) [0..<2 ^ w], map (\<lambda>p. im ! bitrev w p) [0..<2 ^ w])"
proof -
  have "(2::nat) ^ w - 1 < 2 ^ w" by simp
  from bitrev_loop [OF assms this]
  show ?thesis
    by (simp add: bit_reverse_def partly_all)
qed

subsection \<open>The butterfly passes on complex sequences\<close>

lemma butterfly_good:
  "good_st n st \<Longrightarrow> good_st n (butterfly len wRe wIm i k st)"
  by (cases st) (simp add: good_st_def butterfly_def Let_def)

lemma butterfly_sim:
  assumes "good_st n st" "i + k + len div 2 < n" "0 < len div 2"
  shows "abs_st (butterfly len wRe wIm i k st)
         = abfly (len div 2) (Complex wRe wIm) i k (abs_st st)"
proof -
  obtain re im cR cI where st: "st = (re, im, cR, cI)"
    by (cases st) auto
  have len: "length re = n" "length im = n"
    using assms(1) by (simp_all add: st good_st_def)
  define h where "h = len div 2"
  have hi: "i + k + h < n" and lo: "i + k < n" and ne: "i + k + h \<noteq> i + k"
    using assms(2,3) by (simp_all add: h_def)
  have cur: "Complex (cR * wRe - cI * wIm) (cR * wIm + cI * wRe)
             = Complex cR cI * Complex wRe wIm"
    by (simp add: complex_eq_iff)
  have "cval (re[i + k + h := re ! (i + k) - (cR * re ! (i + k + h) - cI * im ! (i + k + h)),
                i + k := re ! (i + k) + (cR * re ! (i + k + h) - cI * im ! (i + k + h))],
              im[i + k + h := im ! (i + k) - (cR * im ! (i + k + h) + cI * re ! (i + k + h)),
                i + k := im ! (i + k) + (cR * im ! (i + k + h) + cI * re ! (i + k + h))]) p
        = ((cval (re, im))
            (i + k + h := cval (re, im) (i + k) - Complex cR cI * cval (re, im) (i + k + h),
             i + k := cval (re, im) (i + k) + Complex cR cI * cval (re, im) (i + k + h))) p"
    for p
    using hi lo ne len
    by (simp add: cval_def complex_eq_iff nth_list_update)
  then show ?thesis
    using ne hi lo len
    by (simp add: st abs_st_def butterfly_def abfly_def Let_def h_def [symmetric] cur
        fun_eq_iff nth_list_update)
qed

lemma fold_sim:
  assumes "\<And>x st. x \<in> set xs \<Longrightarrow> G st \<Longrightarrow> G (c x st) \<and> ab (c x st) = a x (ab st)"
  shows "G st \<Longrightarrow> G (fold c xs st) \<and> ab (fold c xs st) = fold a xs (ab st)"
  using assms
proof (induction xs arbitrary: st)
  case Nil
  then show ?case by simp
next
  case (Cons x xs)
  have 1: "G (c x st)" and 2: "ab (c x st) = a x (ab st)"
    using Cons.prems(2) [of x st] Cons.prems(1) by simp_all
  have "G (fold c xs (c x st)) \<and> ab (fold c xs (c x st)) = fold a xs (ab (c x st))"
    by (rule Cons.IH [OF 1]) (use Cons.prems(2) in simp)
  then show ?case by (simp add: 2)
qed

lemma abfly_fold:
  "m \<le> h \<Longrightarrow>
   fold (abfly h w i) [0..<m] (f, 1)
     = (\<lambda>p. if i \<le> p \<and> p < i + m then f p + w ^ (p - i) * f (p + h)
            else if i + h \<le> p \<and> p < i + h + m then f (p - h) - w ^ (p - i - h) * f p
            else f p,
        w ^ m)"
proof (induction m)
  case 0
  then show ?case by (auto simp: fun_eq_iff)
next
  case (Suc m)
  then have m: "m < h" by simp
  define g where "g = (\<lambda>p. if i \<le> p \<and> p < i + m then f p + w ^ (p - i) * f (p + h)
            else if i + h \<le> p \<and> p < i + h + m then f (p - h) - w ^ (p - i - h) * f p
            else f p)"
  have ih: "fold (abfly h w i) [0..<m] (f, 1) = (g, w ^ m)"
    unfolding g_def using Suc.IH m by simp
  have g1: "g (i + m) = f (i + m)" and g2: "g (i + m + h) = f (i + m + h)"
    using m by (simp_all add: g_def)
  have "fold (abfly h w i) [0..<Suc m] (f, 1) = abfly h w i m (g, w ^ m)"
    by (simp add: ih)
  also have "\<dots> = (g(i + m + h := f (i + m) - w ^ m * f (i + m + h),
                       i + m := f (i + m) + w ^ m * f (i + m + h)), w ^ Suc m)"
    by (simp add: abfly_def g1 g2)
  also have "g(i + m + h := f (i + m) - w ^ m * f (i + m + h),
               i + m := f (i + m) + w ^ m * f (i + m + h))
      = (\<lambda>p. if i \<le> p \<and> p < i + Suc m then f p + w ^ (p - i) * f (p + h)
            else if i + h \<le> p \<and> p < i + h + Suc m then f (p - h) - w ^ (p - i - h) * f p
            else f p)"
  proof
    fix p
    consider "p = i + m" | "p = i + m + h" | "p \<noteq> i + m" "p \<noteq> i + m + h" by blast
    then show "(g(i + m + h := f (i + m) - w ^ m * f (i + m + h),
               i + m := f (i + m) + w ^ m * f (i + m + h))) p
      = (if i \<le> p \<and> p < i + Suc m then f p + w ^ (p - i) * f (p + h)
            else if i + h \<le> p \<and> p < i + h + Suc m then f (p - h) - w ^ (p - i - h) * f p
            else f p)"
    proof cases
      case 1
      then show ?thesis using m by simp
    next
      case 2
      then show ?thesis using m by simp
    next
      case 3
      then have a: "p < i + Suc m \<longleftrightarrow> p < i + m" and b: "p < i + h + Suc m \<longleftrightarrow> p < i + h + m"
        by auto
      show ?thesis using 3 unfolding a b by (simp add: g_def)
    qed
  qed
  finally show ?case .
qed

lemma ablock_eq:
  "ablock h w i f
     = (\<lambda>p. if i \<le> p \<and> p < i + h then f p + w ^ (p - i) * f (p + h)
            else if i + h \<le> p \<and> p < i + h + h then f (p - h) - w ^ (p - i - h) * f p
            else f p)"
  by (simp add: ablock_def abfly_fold)

lemma fft_block_sim:
  assumes "good n a" "i + len \<le> n" "0 < len div 2"
  shows "good n (fft_block len wRe wIm i a)
       \<and> cval (fft_block len wRe wIm i a) = ablock (len div 2) (Complex wRe wIm) i (cval a)"
proof -
  define st0 :: "real list \<times> real list \<times> real \<times> real" where "st0 = (fst a, snd a, 1, 0)"
  have g0: "good_st n st0"
    using assms(1) by (simp add: st0_def good_st_def good_def)
  have a0: "abs_st st0 = (cval a, 1)"
    by (simp add: st0_def abs_st_def cval_def complex_eq_iff)
  have step: "good_st n (butterfly len wRe wIm i k st)
            \<and> abs_st (butterfly len wRe wIm i k st)
              = abfly (len div 2) (Complex wRe wIm) i k (abs_st st)"
    if "k \<in> set [0..<len div 2]" "good_st n st" for k st
  proof -
    have "i + k + len div 2 < n"
      using that(1) assms(2) by simp
    then show ?thesis
      using butterfly_good [OF that(2)] butterfly_sim [OF that(2) _ assms(3)] by simp
  qed
  have sim: "good_st n (fold (butterfly len wRe wIm i) [0..<len div 2] st0)
      \<and> abs_st (fold (butterfly len wRe wIm i) [0..<len div 2] st0)
        = fold (abfly (len div 2) (Complex wRe wIm) i) [0..<len div 2] (abs_st st0)"
    by (rule fold_sim [where G = "good_st n" and c = "butterfly len wRe wIm i"
          and a = "abfly (len div 2) (Complex wRe wIm) i" and ab = abs_st, OF step g0])
  obtain re im cR cI where r: "fold (butterfly len wRe wIm i) [0..<len div 2] st0 = (re, im, cR, cI)"
    by (cases "fold (butterfly len wRe wIm i) [0..<len div 2] st0") auto
  have fb: "fft_block len wRe wIm i a = (re, im)"
    by (simp add: fft_block_def st0_def [symmetric] r)
  have "(cval (re, im), Complex cR cI)
      = fold (abfly (len div 2) (Complex wRe wIm) i) [0..<len div 2] (cval a, 1)"
    using sim unfolding r a0 by (simp add: abs_st_def)
  then have "cval (re, im) = ablock (len div 2) (Complex wRe wIm) i (cval a)"
    unfolding ablock_def by (metis fst_conv)
  moreover have "good n (re, im)"
    using sim unfolding r by (simp add: good_st_def good_def)
  ultimately show ?thesis
    unfolding fb by simp
qed

lemma mod_block:
  fixes p :: nat
  assumes "c * l \<le> p" "p < c * l + l"
  shows "p mod l = p - c * l"
proof -
  have "p = c * l + (p - c * l)" using assms by simp
  then have "p mod l = (c * l + (p - c * l)) mod l" by simp
  also have "\<dots> = (p - c * l) mod l" by (simp del: add_diff_inverse_nat)
  also have "\<dots> = p - c * l" using assms by simp
  finally show ?thesis .
qed

lemma ablock_fold:
  assumes "0 < h"
  shows "fold (ablock h w) (map (\<lambda>b. b * (2 * h)) [0..<c]) f
     = (\<lambda>p. if p < c * (2 * h) then pass_val h w f p else f p)"
proof (induction c)
  case 0
  then show ?case by simp
next
  case (Suc c)
  define g where "g = (\<lambda>p. if p < c * (2 * h) then pass_val h w f p else f p)"
  define i where "i = c * (2 * h)"
  have "fold (ablock h w) (map (\<lambda>b. b * (2 * h)) [0..<Suc c]) f = ablock h w i g"
    using Suc.IH by (simp add: g_def i_def)
  also have "\<dots> = (\<lambda>p. if p < Suc c * (2 * h) then pass_val h w f p else f p)"
  proof
    fix p
    have top: "Suc c * (2 * h) = i + h + h" by (simp add: i_def)
    consider "p < i" | "i \<le> p" "p < i + h" | "i + h \<le> p" "p < i + h + h" | "i + h + h \<le> p"
      by linarith
    then show "ablock h w i g p = (if p < Suc c * (2 * h) then pass_val h w f p else f p)"
    proof cases
      case 1
      then show ?thesis
        unfolding top ablock_eq by (simp add: g_def i_def [symmetric])
    next
      case 2
      have "p mod (2 * h) = p - c * (2 * h)"
        by (rule mod_block) (use 2 in \<open>simp_all add: i_def\<close>)
      then have md: "p mod (2 * h) = p - i" by (simp add: i_def)
      have "ablock h w i g p = g p + w ^ (p - i) * g (p + h)"
        unfolding ablock_eq using 2 by simp
      also have "\<dots> = f p + w ^ (p - i) * f (p + h)"
        using 2 by (simp add: g_def i_def [symmetric])
      also have "\<dots> = pass_val h w f p"
      proof -
        have "p - i < h" using 2 by linarith
        then show ?thesis by (simp add: pass_val_def md)
      qed
      finally show ?thesis unfolding top using 2 by simp
    next
      case 3
      have "p mod (2 * h) = p - c * (2 * h)"
        by (rule mod_block) (use 3 in \<open>simp_all add: i_def\<close>)
      then have md: "p mod (2 * h) = p - i" by (simp add: i_def)
      have "ablock h w i g p = g (p - h) - w ^ (p - i - h) * g p"
        unfolding ablock_eq using 3 by simp
      also have "\<dots> = f (p - h) - w ^ (p - i - h) * f p"
      proof -
        have "\<not> p - h < i" "\<not> p < i" using 3 by linarith+
        then show ?thesis by (simp add: g_def i_def [symmetric])
      qed
      also have "\<dots> = pass_val h w f p"
      proof -
        have "\<not> p - i < h" using 3 by linarith
        then show ?thesis by (simp add: pass_val_def md)
      qed
      finally show ?thesis unfolding top using 3 by simp
    next
      case 4
      then show ?thesis
        unfolding top ablock_eq by (simp add: g_def i_def [symmetric])
    qed
  qed
  finally show ?case .
qed

lemma fft_pass_sim:
  assumes "good n a" "n = c * (2 * h)" "0 < h"
  shows "good n (fft_pass n (2 * h) a)
       \<and> cval (fft_pass n (2 * h) a)
         = (\<lambda>p. if p < n then pass_val h (cis (- 2 * pi / real (2 * h))) (cval a) p
                 else cval a p)"
proof -
  define wRe where "wRe = cos (- 2 * pi / real (2 * h))"
  define wIm where "wIm = sin (- 2 * pi / real (2 * h))"
  have w: "Complex wRe wIm = cis (- 2 * pi / real (2 * h))"
    by (simp add: wRe_def wIm_def complex_eq_iff)
  have cnt: "(n + 2 * h - 1) div (2 * h) = c"
  proof -
    define l where "l = 2 * h"
    have l: "0 < l" using assms(3) by (simp add: l_def)
    have "n + l - 1 = (l - 1) + c * l"
      using assms(2) l by (simp add: l_def)
    then have "(n + l - 1) div l = ((l - 1) + c * l) div l"
      by simp
    also have "\<dots> = (l - 1) div l + c"
      using l by (simp only: div_mult_self1 [of l "l - 1" c] neq0_conv)
    also have "\<dots> = c"
      using l by simp
    finally show ?thesis by (simp add: l_def)
  qed
  have pass: "fft_pass n (2 * h) a
      = fold (fft_block (2 * h) wRe wIm) (map (\<lambda>b. b * (2 * h)) [0..<c]) a"
    unfolding fft_pass_def Let_def cnt wRe_def wIm_def ..
  have step: "good n (fft_block (2 * h) wRe wIm i b)
            \<and> cval (fft_block (2 * h) wRe wIm i b)
               = ablock h (Complex wRe wIm) i (cval b)"
    if mem: "i \<in> set (map (\<lambda>b. b * (2 * h)) [0..<c])" and gb: "good n b" for i b
  proof -
    obtain d where d: "d < c" "i = d * (2 * h)"
      using mem by auto
    have "Suc d * (2 * h) \<le> c * (2 * h)"
      using d(1) by (intro mult_le_mono1) simp
    then have "i + 2 * h \<le> n"
      using d(2) assms(2) by simp
    from fft_block_sim [OF gb this, of wRe wIm] assms(3)
    show ?thesis by simp
  qed
  have "good n (fold (fft_block (2 * h) wRe wIm) (map (\<lambda>b. b * (2 * h)) [0..<c]) a)
      \<and> cval (fold (fft_block (2 * h) wRe wIm) (map (\<lambda>b. b * (2 * h)) [0..<c]) a)
        = fold (ablock h (Complex wRe wIm)) (map (\<lambda>b. b * (2 * h)) [0..<c]) (cval a)"
    by (rule fold_sim [where G = "good n" and c = "fft_block (2 * h) wRe wIm"
          and a = "ablock h (Complex wRe wIm)" and ab = cval, OF step assms(1)])
  then show ?thesis
    unfolding pass [symmetric] w ablock_fold [OF assms(3)] assms(2) by simp
qed

subsection \<open>A pass doubles the length of the transformed subsequences\<close>

lemma om_square: "om (Suc s) ^ 2 = om s"
  by (simp add: om_def DeMoivre)

lemma om_full: "om s ^ (2 ^ s) = 1"
  by (simp add: om_def DeMoivre complex_eq_iff)

lemma om_half: "om (Suc s) ^ (2 ^ s) = - 1"
  by (simp add: om_def DeMoivre complex_eq_iff)

lemma sum_even_odd:
  fixes g :: "nat \<Rightarrow> complex"
  shows "(\<Sum>u<2 * m. g u) = (\<Sum>t<m. g (2 * t)) + (\<Sum>t<m. g (Suc (2 * t)))"
  by (induction m) (simp_all add: algebra_simps)

lemma subdft_split:
  assumes "s < k"
  shows "subdft k x (Suc s) r q
       = subdft k x s r q + om (Suc s) ^ q * subdft k x s (r + 2 ^ (k - Suc s)) q"
proof -
  have e: "(2::nat) ^ (k - s) = 2 * 2 ^ (k - Suc s)"
    using assms by (metis Suc_diff_Suc power_Suc)
  have ev: "x (r + 2 * t * 2 ^ (k - Suc s)) * om (Suc s) ^ (2 * t * q)
          = x (r + t * 2 ^ (k - s)) * om s ^ (t * q)" for t
  proof -
    have "om (Suc s) ^ (2 * t * q) = (om (Suc s) ^ 2) ^ (t * q)"
      by (simp add: power_mult [symmetric] mult.assoc)
    then show ?thesis
      by (simp add: om_square e mult.assoc mult.left_commute)
  qed
  have od: "x (r + Suc (2 * t) * 2 ^ (k - Suc s)) * om (Suc s) ^ (Suc (2 * t) * q)
          = om (Suc s) ^ q * (x (r + 2 ^ (k - Suc s) + t * 2 ^ (k - s)) * om s ^ (t * q))" for t
  proof -
    have "om (Suc s) ^ (Suc (2 * t) * q) = om (Suc s) ^ q * (om (Suc s) ^ 2) ^ (t * q)"
      by (simp add: power_mult [symmetric] power_add [symmetric] mult.assoc)
    then have pw: "om (Suc s) ^ (Suc (2 * t) * q) = om (Suc s) ^ q * om s ^ (t * q)"
      by (simp only: om_square)
    have idx: "r + Suc (2 * t) * 2 ^ (k - Suc s) = r + 2 ^ (k - Suc s) + t * 2 ^ (k - s)"
      by (simp add: e)
    show ?thesis
      unfolding idx pw by (rule mult.left_commute)
  qed
  have "subdft k x (Suc s) r q
      = (\<Sum>u<2 * 2 ^ s. x (r + u * 2 ^ (k - Suc s)) * om (Suc s) ^ (u * q))"
    by (simp add: subdft_def)
  also have "\<dots> = (\<Sum>t<2 ^ s. x (r + 2 * t * 2 ^ (k - Suc s)) * om (Suc s) ^ (2 * t * q))
                + (\<Sum>t<2 ^ s. x (r + Suc (2 * t) * 2 ^ (k - Suc s))
                     * om (Suc s) ^ (Suc (2 * t) * q))"
    by (rule sum_even_odd)
  also have "\<dots> = subdft k x s r q + om (Suc s) ^ q * subdft k x s (r + 2 ^ (k - Suc s)) q"
    unfolding ev od subdft_def sum_distrib_left ..
  finally show ?thesis .
qed

lemma subdft_periodic: "subdft k x s r (q + 2 ^ s) = subdft k x s r q"
proof -
  have "om s ^ (t * (q + 2 ^ s)) = om s ^ (t * q)" for t
  proof -
    have "om s ^ (t * (q + 2 ^ s)) = om s ^ (t * q) * (om s ^ (2 ^ s)) ^ t"
      by (simp add: power_mult [symmetric] power_add [symmetric] algebra_simps)
    then show ?thesis by (simp add: om_full)
  qed
  then show ?thesis by (simp add: subdft_def)
qed

lemma subdft_split_upper:
  assumes "s < k"
  shows "subdft k x (Suc s) r (q + 2 ^ s)
       = subdft k x s r q - om (Suc s) ^ q * subdft k x s (r + 2 ^ (k - Suc s)) q"
proof -
  have "om (Suc s) ^ (q + 2 ^ s) = - (om (Suc s) ^ q)"
    by (simp add: power_add om_half)
  then show ?thesis
    unfolding subdft_split [OF assms] subdft_periodic by simp
qed

lemma div_mod_block:
  fixes q :: nat
  assumes "q < h"
  shows "(b * h + q) div h = b" "(b * h + q) mod h = q"
  using assms by simp_all

lemma stage_step:
  assumes s: "s < k" and p: "p < 2 ^ k"
    and f: "\<And>p. p < 2 ^ k \<Longrightarrow> f p = stage k x s p"
  shows "pass_val (2 ^ s) (om (Suc s)) f p = stage k x (Suc s) p"
proof -
  define h :: nat where "h = 2 ^ s"
  define b where "b = p div (2 * h)"
  define q where "q = p mod (2 * h)"
  define r where "r = bitrev (k - Suc s) b"
  have h: "0 < h" by (simp add: h_def)
  have pq: "p = b * (2 * h) + q"
    unfolding b_def q_def by (rule div_mult_mod_eq [symmetric])
  have q: "q < 2 * h"
    using h by (simp add: q_def)
  have w: "k - s = Suc (k - Suc s)" using s by simp
  have n: "(2::nat) ^ k = 2 ^ (k - Suc s) * (2 * h)"
    using s by (simp add: h_def power_add [symmetric] flip: power_Suc)
  have b: "b < 2 ^ (k - Suc s)"
    using p h unfolding b_def n by (simp add: less_mult_imp_div_less mult.commute)
  have top: "Suc b * (2 * h) \<le> 2 ^ k"
    unfolding n using b by (intro mult_le_mono1) simp
  have r0: "bitrev (k - s) (2 * b) = r"
    unfolding w r_def by (rule bitrev_even)
  have r1: "bitrev (k - s) (Suc (2 * b)) = 2 ^ (k - Suc s) + r"
    unfolding w r_def by (rule bitrev_odd)
  have tgt: "stage k x (Suc s) p = subdft k x (Suc s) r q"
    by (simp add: stage_def r_def b_def q_def h_def)
  show ?thesis
  proof (cases "q < h")
    case True
    have lo: "p = (2 * b) * h + q" using pq by simp
    have hi: "p + h = Suc (2 * b) * h + q" using pq by simp
    have hil: "p + h < 2 ^ k" using top True pq by simp
    have "f p = stage k x s p" by (rule f [OF p])
    also have "\<dots> = subdft k x s r q"
      unfolding stage_def h_def [symmetric]
      by (simp only: lo div_mod_block [OF True] r0)
    finally have fp: "f p = subdft k x s r q" .
    have "f (p + h) = stage k x s (p + h)" by (rule f [OF hil])
    also have "\<dots> = subdft k x s (2 ^ (k - Suc s) + r) q"
      unfolding stage_def h_def [symmetric]
      by (simp only: hi div_mod_block [OF True] r1)
    finally have fph: "f (p + h) = subdft k x s (r + 2 ^ (k - Suc s)) q"
      by (simp add: add.commute)
    have "pass_val h (om (Suc s)) f p = f p + om (Suc s) ^ q * f (p + h)"
      using True by (simp add: pass_val_def q_def)
    also have "\<dots> = subdft k x (Suc s) r q"
      unfolding fp fph subdft_split [OF s] ..
    finally show ?thesis
      unfolding tgt h_def .
  next
    case False
    define q' where "q' = q - h"
    have q': "q' < h" and qq: "q = q' + h"
      using False q by (simp_all add: q'_def)
    have hi: "p = Suc (2 * b) * h + q'" using pq qq by simp
    have lo: "p - h = (2 * b) * h + q'" using pq qq by simp
    have lol: "p - h < 2 ^ k" using p by simp
    have "f p = stage k x s p" by (rule f [OF p])
    also have "\<dots> = subdft k x s (2 ^ (k - Suc s) + r) q'"
      unfolding stage_def h_def [symmetric]
      by (simp only: hi div_mod_block [OF q'] r1)
    finally have fp: "f p = subdft k x s (r + 2 ^ (k - Suc s)) q'"
      by (simp add: add.commute)
    have "f (p - h) = stage k x s (p - h)" by (rule f [OF lol])
    also have "\<dots> = subdft k x s r q'"
      unfolding stage_def h_def [symmetric]
      by (simp only: lo div_mod_block [OF q'] r0)
    finally have fpl: "f (p - h) = subdft k x s r q'" .
    have "pass_val h (om (Suc s)) f p = f (p - h) - om (Suc s) ^ q' * f p"
      using False by (simp add: pass_val_def q_def q'_def)
    also have "\<dots> = subdft k x (Suc s) r (q' + 2 ^ s)"
      unfolding fp fpl subdft_split_upper [OF s] ..
    finally show ?thesis
      unfolding tgt qq h_def .
  qed
qed

lemma fft_passes_stage:
  assumes n: "n = 2 ^ k"
  shows "s \<le> k \<Longrightarrow> good n a \<Longrightarrow> (\<And>p. p < n \<Longrightarrow> cval a p = stage k x s p) \<Longrightarrow>
     good n (fft_passes n (2 ^ Suc s) a)
     \<and> (\<forall>p<n. cval (fft_passes n (2 ^ Suc s) a) p = stage k x k p)"
proof (induction "k - s" arbitrary: s a)
  case 0
  then have s: "s = k" by simp
  have "\<not> (2::nat) ^ Suc k \<le> 2 ^ k" by simp
  then have "fft_passes n (2 ^ Suc s) a = a"
    unfolding s n by (subst fft_passes.simps) simp
  then show ?case
    using "0.prems" s by simp
next
  case (Suc d)
  then have s: "s < k" and d: "d = k - Suc s" and s': "Suc s \<le> k" by simp_all
  define a' where "a' = fft_pass n (2 ^ Suc s) a"
  have le: "(2::nat) ^ Suc s \<le> 2 ^ k"
    using s' by (rule power_increasing) simp
  have unf: "fft_passes n (2 ^ Suc s) a = fft_passes n (2 ^ Suc (Suc s)) a'"
    using le unfolding n a'_def by (subst fft_passes.simps) simp
  have nn: "n = 2 ^ (k - Suc s) * (2 * 2 ^ s)"
    using s' unfolding n by (simp add: power_add [symmetric] flip: power_Suc)
  have sim: "good n (fft_pass n (2 * 2 ^ s) a)
       \<and> cval (fft_pass n (2 * 2 ^ s) a)
         = (\<lambda>p. if p < n then pass_val (2 ^ s) (cis (- 2 * pi / real (2 * 2 ^ s))) (cval a) p
                 else cval a p)"
    by (rule fft_pass_sim [OF Suc.prems(2) nn]) simp
  have w: "cis (- 2 * pi / real (2 * 2 ^ s)) = om (Suc s)"
    by (simp add: om_def)
  have g': "good n a'"
    using sim by (simp add: a'_def)
  have v': "cval a' p = stage k x (Suc s) p" if p: "p < n" for p
  proof -
    have "cval a' p = pass_val (2 ^ s) (om (Suc s)) (cval a) p"
      using sim p unfolding w by (simp add: a'_def)
    also have "\<dots> = stage k x (Suc s) p"
    proof (rule stage_step [OF s])
      show "p < 2 ^ k" using p n by simp
      show "cval a p = stage k x s p" if "p < 2 ^ k" for p
        using that Suc.prems(3) [of p] n by simp
    qed
    finally show ?thesis .
  qed
  show ?case
    unfolding unf by (rule Suc.hyps(1) [OF d s' g' v'])
qed

lemma stage_final: "p < 2 ^ k \<Longrightarrow> stage k x k p = dft (2 ^ k) x p"
  by (simp add: stage_def subdft_def dft_def om_def)

lemma stage_initial: "stage k x 0 p = x (bitrev k p)"
  by (simp add: stage_def subdft_def)

lemma fft1d_dft:
  assumes "length re = 2 ^ k" "length im = 2 ^ k"
  shows "good (2 ^ k) (fft1d (re, im))
       \<and> (\<forall>p<2 ^ k. cval (fft1d (re, im)) p = dft (2 ^ k) (cval (re, im)) p)"
proof (cases k)
  case 0
  then have "fft1d (re, im) = (re, im)"
    using assms by (simp add: fft1d_def)
  then show ?thesis
    using assms 0 by (simp add: good_def dft_def)
next
  case (Suc k')
  define n :: nat where "n = 2 ^ k"
  define a0 where "a0 = bit_reverse n (re, im)"
  have k: "0 < k" using Suc by simp
  have "(2::nat) ^ 1 \<le> 2 ^ k"
    by (rule power_increasing) (use k in simp_all)
  then have n1: "\<not> n \<le> 1" by (simp add: n_def)
  have a0: "a0 = (map (\<lambda>p. re ! bitrev k p) [0..<n], map (\<lambda>p. im ! bitrev k p) [0..<n])"
    unfolding a0_def n_def by (rule bit_reverse_correct [OF k assms])
  have g0: "good n a0"
    by (simp add: a0 good_def)
  have v0: "cval a0 p = stage k (cval (re, im)) 0 p" if "p < n" for p
    using that by (simp add: a0 cval_def stage_initial)
  have f: "fft1d (re, im) = fft_passes n (2 ^ Suc 0) a0"
    using n1 assms by (simp add: fft1d_def a0_def n_def Let_def)
  have "good n (fft_passes n (2 ^ Suc 0) a0)
     \<and> (\<forall>p<n. cval (fft_passes n (2 ^ Suc 0) a0) p = stage k (cval (re, im)) k p)"
    by (rule fft_passes_stage [OF n_def _ g0 v0]) simp_all
  then show ?thesis
    unfolding f n_def by (simp add: stage_final)
qed

subsection \<open>Inversion of the discrete Fourier transform\<close>

lemma cis_eq_1_imp:
  assumes "cis \<theta> = 1"
  shows "\<exists>m::int. \<theta> = of_int m * (2 * pi)"
proof -
  have "cos \<theta> = 1" using assms by (simp add: complex_eq_iff)
  then show ?thesis by (simp add: cos_one_2pi_int mult.assoc)
qed

lemma cis_2pi_int: "cis (2 * pi * of_int d) = 1"
  by (simp add: complex_eq_iff cos_int_2pin sin_int_2pin)

lemma root_not_1:
  fixes d :: int
  assumes "d \<noteq> 0" "\<bar>d\<bar> < int n"
  shows "cis (2 * pi * of_int d / real n) \<noteq> 1"
proof
  assume "cis (2 * pi * of_int d / real n) = 1"
  then obtain m :: int where m: "2 * pi * of_int d / real n = of_int m * (2 * pi)"
    using cis_eq_1_imp by blast
  have n: "0 < n" using assms by auto
  have "real_of_int d = of_int m * real n"
    using m n by (simp add: field_simps)
  then have "real_of_int d = real_of_int (m * int n)" by simp
  then have dm: "d = m * int n" by (simp only: of_int_eq_iff)
  then have "m \<noteq> 0" using assms(1) by auto
  then have "int n \<le> \<bar>m\<bar> * int n" using n by simp
  then have "int n \<le> \<bar>d\<bar>" unfolding dm by (simp add: abs_mult)
  then show False using assms(2) by simp
qed

lemma root_sum:
  assumes "t < n" "j < n"
  shows "(\<Sum>q<n. cis (- 2 * pi / real n) ^ (t * q) * cis (2 * pi * real (j * q) / real n))
       = (if t = j then of_nat n else 0)"
proof -
  define d where "d = int j - int t"
  define z where "z = cis (2 * pi * of_int d / real n)"
  have n: "0 < n" using assms by simp
  have tm: "cis (- 2 * pi / real n) ^ (t * q) * cis (2 * pi * real (j * q) / real n) = z ^ q"
    for q
  proof -
    have "real (t * q) * (- 2 * pi / real n) + 2 * pi * real (j * q) / real n
        = real q * (2 * pi * of_int d / real n)"
      by (simp add: d_def algebra_simps diff_divide_distrib)
    then show ?thesis
      by (simp only: z_def DeMoivre cis_mult)
  qed
  have zn: "z ^ n = 1"
  proof -
    have "z ^ n = cis (2 * pi * of_int d)"
      using n by (simp add: z_def DeMoivre)
    also have "\<dots> = 1"
      by (rule cis_2pi_int)
    finally show ?thesis .
  qed
  show ?thesis
  proof (cases "t = j")
    case True
    then have "z = 1" by (simp add: z_def d_def)
    then show ?thesis unfolding tm using True by simp
  next
    case False
    have "z \<noteq> 1"
      unfolding z_def by (rule root_not_1) (use False assms in \<open>auto simp: d_def\<close>)
    then have "(\<Sum>q<n. z ^ q) = (z ^ n - 1) / (z - 1)"
      by (rule geometric_sum)
    then show ?thesis unfolding tm zn using False by simp
  qed
qed

lemma dft_inversion:
  assumes "j < n"
  shows "(\<Sum>q<n. dft n x q * cis (2 * pi * real (j * q) / real n)) = of_nat n * x j"
proof -
  have "(\<Sum>q<n. dft n x q * cis (2 * pi * real (j * q) / real n))
      = (\<Sum>q<n. \<Sum>t<n. x t * (cis (- 2 * pi / real n) ^ (t * q)
                                * cis (2 * pi * real (j * q) / real n)))"
    by (simp add: dft_def sum_distrib_right mult.assoc)
  also have "\<dots> = (\<Sum>t<n. \<Sum>q<n. x t * (cis (- 2 * pi / real n) ^ (t * q)
                                * cis (2 * pi * real (j * q) / real n)))"
    by (rule sum.swap)
  also have "\<dots> = (\<Sum>t<n. x t * (if t = j then of_nat n else 0))"
  proof (rule sum.cong [OF refl])
    fix t
    assume "t \<in> {..<n}"
    then have t: "t < n" by simp
    show "(\<Sum>q<n. x t * (cis (- 2 * pi / real n) ^ (t * q)
                                * cis (2 * pi * real (j * q) / real n)))
        = x t * (if t = j then of_nat n else 0)"
      unfolding sum_distrib_left [symmetric] root_sum [OF t assms] ..
  qed
  also have "\<dots> = (\<Sum>t<n. if t = j then of_nat n * x t else 0)"
    by (rule sum.cong [OF refl]) simp
  also have "\<dots> = of_nat n * x j"
    using assms by (simp add: sum.delta)
  finally show ?thesis .
qed

lemma fft1d_round_trip:
  assumes "length re = 2 ^ k" "length im = 2 ^ k"
  shows "inverse_dft (fft1d (re, im)) = (re, im)"
proof -
  define n :: nat where "n = 2 ^ k"
  define a where "a = fft1d (re, im)"
  have n: "0 < n" by (simp add: n_def)
  have g: "good n a" and v: "\<And>p. p < n \<Longrightarrow> cval a p = dft n (cval (re, im)) p"
    using fft1d_dft [OF assms] by (simp_all add: a_def n_def)
  have len: "length (fst a) = n" using g by (simp add: good_def)
  define Y where
    "Y = (\<lambda>j. (\<Sum>q<n. cval a q * cis (2 * pi * real (j * q) / real n)) / of_nat n)"
  have y: "Y j = cval (re, im) j" if j: "j < n" for j
  proof -
    have "(\<Sum>q<n. cval a q * cis (2 * pi * real (j * q) / real n))
        = (\<Sum>q<n. dft n (cval (re, im)) q * cis (2 * pi * real (j * q) / real n))"
      by (rule sum.cong [OF refl]) (simp add: v)
    also have "\<dots> = of_nat n * cval (re, im) j"
      by (rule dft_inversion [OF j])
    finally show ?thesis using n by (simp add: Y_def)
  qed
  have r: "map (\<lambda>j. Re (Y j)) [0..<n] = re"
    by (rule nth_equalityI) (simp_all add: y assms n_def [symmetric] cval_def)
  have i: "map (\<lambda>j. Im (Y j)) [0..<n] = im"
    by (rule nth_equalityI) (simp_all add: y assms n_def [symmetric] cval_def)
  have "inverse_dft a = (map (\<lambda>j. Re (Y j)) [0..<n], map (\<lambda>j. Im (Y j)) [0..<n])"
    unfolding inverse_dft_def Let_def len Y_def ..
  then show ?thesis
    unfolding r i a_def .
qed

text \<open>
  C3: for every real-valued input sequence whose length is a power of two, \<open>fft1d\<close>
  followed by the inverse transform gives back the sequence. The numbers of the model
  are real numbers, so the round trip is exact here; the length is kept below \<open>2 ^ 30\<close>,
  the range in which the 32-bit operators of the source are the arithmetic ones.
\<close>

theorem C3_fft1d_round_trip:
  assumes "length xs = 2 ^ k" and "k < 30"
  shows "inverse_dft (fft1d (xs, replicate (length xs) 0)) = (xs, replicate (length xs) 0)"
  using fft1d_round_trip [of xs k "replicate (length xs) 0"] assms(1) by simp

theorem C3_fft1d_round_trip_witness:
  "inverse_dft (fft1d ([3, 1, 4, 1], [0, 0, 0, 0])) = ([3, 1, 4, 1], [0, 0, 0, 0])"
  using C3_fft1d_round_trip [of "[3, 1, 4, 1]" 2] by (simp add: numeral_eq_Suc)


end
